theory Spec2Isabelle
  imports Complex_Main "HOL-Library.Log_Nat"
begin

section \<open>Python floats: IEEE 754 binary64 with round-to-nearest-even\<close>

text \<open>
  Every number the scaler handles is a Python \<^verbatim>\<open>float\<close>, an IEEE 754 binary64 value.
  A finite float is kept as sign, integer significand and binary exponent:
  \<open>Finite s m e\<close> stands for \<open>(-1)^s * m * 2^e\<close>.  The arithmetic below always
  returns the canonical form of a double (\<open>0 < m < 2^53\<close>, \<open>-1074 \<le> e \<le> 971\<close>, and
  \<open>2^52 \<le> m\<close> unless \<open>e = -1074\<close>; the zeros are \<open>Finite False 0 0\<close> and
  \<open>Finite True 0 0\<close>), so two results are the same double exactly when they are the
  same term.
\<close>

datatype pyfloat = Finite bool int int | Infinity bool | NaN

datatype py_error = ZeroDivisionError | OverflowError | ValueError | KeyError

text \<open>The integer nearest to \<open>n / d\<close> (for \<open>0 \<le> n\<close>, \<open>0 < d\<close>), ties going to the even one.\<close>

definition round_half_even :: "int \<Rightarrow> int \<Rightarrow> int" where
  "round_half_even n d =
     (let q = n div d; r = n mod d
      in if 2 * r < d then q
         else if d < 2 * r then q + 1
         else if even q then q else q + 1)"

text \<open>\<open>\<lfloor>log\<^sub>2 (a / b)\<rfloor>\<close> for positive \<open>a\<close> and \<open>b\<close>, from the bit lengths.\<close>

definition ilog2 :: "int \<Rightarrow> int \<Rightarrow> int" where
  "ilog2 a b =
     (let k = bitlen a - bitlen b
      in if b * 2 ^ nat k \<le> a * 2 ^ nat (- k) then k else k - 1)"

text \<open>
  The double nearest to \<open>(-1)^s * a / b\<close> (for \<open>0 \<le> a\<close>, \<open>0 < b\<close>): 53 significant bits,
  gradual underflow below \<open>2^-1022\<close>, overflow to infinity from \<open>2^1024 - 2^970\<close> on.
\<close>

definition round_ratio :: "bool \<Rightarrow> int \<Rightarrow> int \<Rightarrow> pyfloat" where
  "round_ratio s a b =
     (if a = 0 then Finite s 0 0
      else
        let e = max (ilog2 a b - 52) (- 1074);
            m = round_half_even (a * 2 ^ nat (- e)) (b * 2 ^ nat e)
        in if m = 0 then Finite s 0 0
           else if m = 2 ^ 53
           then (if 971 < e + 1 then Infinity s else Finite s (2 ^ 52) (e + 1))
           else (if 971 < e then Infinity s else Finite s m e))"

text \<open>The double nearest to \<open>a * 2^e\<close>, for an integer \<open>a\<close> of either sign.\<close>

definition round_scaled :: "bool \<Rightarrow> int \<Rightarrow> int \<Rightarrow> pyfloat" where
  "round_scaled s a e = round_ratio s (a * 2 ^ nat e) (2 ^ nat (- e))"

definition with_sign :: "bool \<Rightarrow> int \<Rightarrow> int" where
  "with_sign s m = (if s then - m else m)"

fun fneg :: "pyfloat \<Rightarrow> pyfloat" where
  "fneg (Finite s m e) = Finite (\<not> s) m e"
| "fneg (Infinity s) = Infinity (\<not> s)"
| "fneg NaN = NaN"

text \<open>\<^verbatim>\<open>abs(x)\<close> of a float.\<close>

fun fabs :: "pyfloat \<Rightarrow> pyfloat" where
  "fabs (Finite s m e) = Finite False m e"
| "fabs (Infinity s) = Infinity False"
| "fabs NaN = NaN"

fun is_zero :: "pyfloat \<Rightarrow> bool" where
  "is_zero (Finite s m e) = (m = 0)"
| "is_zero _ = False"

text \<open>
  Addition.  An exact sum of zero is \<open>+0.0\<close>, except that \<open>-0.0 + -0.0\<close> is \<open>-0.0\<close>.
\<close>

fun fadd :: "pyfloat \<Rightarrow> pyfloat \<Rightarrow> pyfloat" where
  "fadd NaN _ = NaN"
| "fadd _ NaN = NaN"
| "fadd (Infinity s) (Infinity t) = (if s = t then Infinity s else NaN)"
| "fadd (Infinity s) (Finite _ _ _) = Infinity s"
| "fadd (Finite _ _ _) (Infinity t) = Infinity t"
| "fadd (Finite s1 m1 e1) (Finite s2 m2 e2) =
     (let e = min e1 e2;
          a = with_sign s1 m1 * 2 ^ nat (e1 - e) + with_sign s2 m2 * 2 ^ nat (e2 - e)
      in if a = 0 then Finite (s1 \<and> s2) 0 0
         else round_scaled (a < 0) \<bar>a\<bar> e)"

definition fsub :: "pyfloat \<Rightarrow> pyfloat \<Rightarrow> pyfloat" where
  "fsub x y = fadd x (fneg y)"

fun fmul :: "pyfloat \<Rightarrow> pyfloat \<Rightarrow> pyfloat" where
  "fmul NaN _ = NaN"
| "fmul _ NaN = NaN"
| "fmul (Infinity s) (Infinity t) = Infinity (s \<noteq> t)"
| "fmul (Infinity s) (Finite t m e) = (if m = 0 then NaN else Infinity (s \<noteq> t))"
| "fmul (Finite s m e) (Infinity t) = (if m = 0 then NaN else Infinity (s \<noteq> t))"
| "fmul (Finite s1 m1 e1) (Finite s2 m2 e2) =
     round_scaled (s1 \<noteq> s2) (m1 * m2) (e1 + e2)"

text \<open>
  Division as Python's \<^verbatim>\<open>float.__truediv__\<close>: a zero divisor of either sign raises
  \<^verbatim>\<open>ZeroDivisionError\<close>, whatever the dividend; everything else is IEEE division.
\<close>

fun fdiv :: "pyfloat \<Rightarrow> pyfloat \<Rightarrow> py_error + pyfloat" where
  "fdiv x (Finite t m2 e2) =
     (if m2 = 0 then Inl ZeroDivisionError
      else case x of
        NaN \<Rightarrow> Inr NaN
      | Infinity s \<Rightarrow> Inr (Infinity (s \<noteq> t))
      | Finite s m1 e1 \<Rightarrow>
          Inr (round_ratio (s \<noteq> t) (m1 * 2 ^ nat (e1 - e2)) (m2 * 2 ^ nat (e2 - e1))))"
| "fdiv x (Infinity t) =
     (case x of
        NaN \<Rightarrow> Inr NaN
      | Infinity s \<Rightarrow> Inr NaN
      | Finite s m1 e1 \<Rightarrow> Inr (Finite (s \<noteq> t) 0 0))"
| "fdiv x NaN = Inr NaN"

text \<open>
  An \<^verbatim>\<open>int\<close> operand of a mixed operation is converted first, correctly rounded;
  an integer that rounds beyond the largest double raises \<^verbatim>\<open>OverflowError\<close>.
\<close>

definition int_to_float :: "int \<Rightarrow> py_error + pyfloat" where
  "int_to_float n =
     (case round_ratio (n < 0) \<bar>n\<bar> 1 of
        Infinity _ \<Rightarrow> Inl OverflowError
      | f \<Rightarrow> Inr f)"

text \<open>
  A decimal literal such as \<^verbatim>\<open>0.1\<close> denotes the double nearest to the fraction it
  writes; a leading minus sign is the negation of that double.
\<close>

definition float_literal :: "int \<Rightarrow> int \<Rightarrow> pyfloat" where
  "float_literal n d = round_ratio False n d"

text \<open>
  \<^verbatim>\<open>round(x)\<close> with one argument: the nearest integer, ties to even;
  \<^verbatim>\<open>ValueError\<close> on a NaN and \<^verbatim>\<open>OverflowError\<close> on an infinity.
\<close>

fun py_round :: "pyfloat \<Rightarrow> py_error + int" where
  "py_round NaN = Inl ValueError"
| "py_round (Infinity s) = Inl OverflowError"
| "py_round (Finite s m e) =
     Inr (with_sign s (round_half_even (m * 2 ^ nat e) (2 ^ nat (- e))))"

text \<open>The comparisons \<^verbatim>\<open>==\<close>, \<^verbatim>\<open><=\<close> and \<^verbatim>\<open><\<close> of two floats; each is false on a NaN.\<close>

fun fcmp :: "(int \<Rightarrow> int \<Rightarrow> bool) \<Rightarrow> pyfloat \<Rightarrow> pyfloat \<Rightarrow> bool" where
  "fcmp R NaN _ = False"
| "fcmp R _ NaN = False"
| "fcmp R (Infinity s) (Infinity t) = R (with_sign s 1) (with_sign t 1)"
| "fcmp R (Infinity s) (Finite _ _ _) = R (with_sign s 1) 0"
| "fcmp R (Finite _ _ _) (Infinity t) = R 0 (with_sign t 1)"
| "fcmp R (Finite s1 m1 e1) (Finite s2 m2 e2) =
     (let e = min e1 e2
      in R (with_sign s1 m1 * 2 ^ nat (e1 - e)) (with_sign s2 m2 * 2 ^ nat (e2 - e)))"

definition feq :: "pyfloat \<Rightarrow> pyfloat \<Rightarrow> bool" where
  "feq = fcmp (=)"

definition fle :: "pyfloat \<Rightarrow> pyfloat \<Rightarrow> bool" where
  "fle = fcmp (\<le>)"

definition flt :: "pyfloat \<Rightarrow> pyfloat \<Rightarrow> bool" where
  "flt = fcmp (<)"

text \<open>
  \<^verbatim>\<open>'{0:.Nf}'.format(x)\<close>: the exact value of the double, correctly rounded to \<open>N\<close>
  decimals (ties to even), with a minus sign whenever the sign bit is set.
\<close>

function dec_digits :: "int \<Rightarrow> string" where
  "dec_digits n =
     (if n < 10 then [''0123456789'' ! nat n]
      else dec_digits (n div 10) @ [''0123456789'' ! nat (n mod 10)])"
  by pat_completeness auto
termination
  by (relation "measure nat") auto

fun format_fixed :: "nat \<Rightarrow> pyfloat \<Rightarrow> string" where
  "format_fixed p NaN = ''nan''"
| "format_fixed p (Infinity s) = (if s then ''-inf'' else ''inf'')"
| "format_fixed p (Finite s m e) =
     (let n = round_half_even (m * 10 ^ p * 2 ^ nat e) (2 ^ nat (- e));
          ds = dec_digits (n mod 10 ^ p)
      in (if s then ''-'' else []) @ dec_digits (n div 10 ^ p) @
         (if p = 0 then [] else ''.'' @ replicate (p - length ds) (CHR ''0'') @ ds))"

section \<open>The parameter scaler\<close>

text \<open>
  \<^verbatim>\<open>Range = namedtuple('Range', ['min', 'max', 'default', 'format'])\<close>.  Every format
  string of \<^verbatim>\<open>RANGES\<close> is \<^verbatim>\<open>'{0:.2f}'\<close>; the field keeps the number of decimals of
  such a fixed-point format.
\<close>

record Range =
  min_val :: pyfloat
  max_val :: pyfloat
  default_val :: pyfloat
  format_val :: nat

definition RANGES :: "(string \<times> Range) list" where
  "RANGES =
     [(''contrast'',
        \<lparr>min_val = float_literal 0 10, max_val = float_literal 20 10,
         default_val = float_literal 10 10, format_val = 2\<rparr>),
      (''brightness'',
        \<lparr>min_val = fneg (float_literal 5 10), max_val = float_literal 5 10,
         default_val = float_literal 0 10, format_val = 2\<rparr>),
      (''saturation'',
        \<lparr>min_val = float_literal 0 10, max_val = float_literal 30 10,
         default_val = float_literal 10 10, format_val = 2\<rparr>),
      (''gamma'',
        \<lparr>min_val = float_literal 1 10, max_val = float_literal 50 10,
         default_val = float_literal 10 10, format_val = 2\<rparr>)]"

definition SLIDER_MAX :: int where
  "SLIDER_MAX = 200"

record Parameter =
  p_var :: string
  p_value :: pyfloat
  p_range :: pyfloat
  p_scale :: pyfloat
  p_offset :: pyfloat
  p_format :: nat

text \<open>\<^verbatim>\<open>Parameter.__init__\<close>; the division is the only statement that can raise.\<close>

definition Parameter_init :: "string \<Rightarrow> Range \<Rightarrow> py_error + Parameter" where
  "Parameter_init var rng =
     (let range = fsub (max_val rng) (min_val rng)
      in case int_to_float SLIDER_MAX of
           Inl err \<Rightarrow> Inl err
         | Inr slider_max \<Rightarrow>
             (case fdiv slider_max range of
                Inl err \<Rightarrow> Inl err
              | Inr scale \<Rightarrow>
                  Inr \<lparr>p_var = var, p_value = default_val rng, p_range = range,
                       p_scale = scale, p_offset = fmul (min_val rng) scale,
                       p_format = format_val rng\<rparr>))"

definition slider_value :: "Parameter \<Rightarrow> py_error + int" where
  "slider_value p = py_round (fsub (fmul (p_value p) (p_scale p)) (p_offset p))"

definition set_from_slider_value :: "Parameter \<Rightarrow> int \<Rightarrow> py_error + Parameter" where
  "set_from_slider_value p v =
     (case int_to_float v of
        Inl err \<Rightarrow> Inl err
      | Inr fv \<Rightarrow>
          (case fdiv (fadd fv (p_offset p)) (p_scale p) of
             Inl err \<Rightarrow> Inl err
           | Inr x \<Rightarrow> Inr (p\<lparr>p_value := x\<rparr>)))"

definition label :: "Parameter \<Rightarrow> string" where
  "label p = format_fixed (p_format p) (p_value p)"

text \<open>
  Sequencing of statements that may raise: the second runs on the result of the first,
  and an exception of the first is the outcome of both.
\<close>

definition then_do :: "py_error + 'a \<Rightarrow> ('a \<Rightarrow> py_error + 'b) \<Rightarrow> py_error + 'b" where
  "then_do r f = (case r of Inl err \<Rightarrow> Inl err | Inr x \<Rightarrow> f x)"

text \<open>
  The reset button, first statement of \<^verbatim>\<open>slot_reset_var\<close>:
  \<^verbatim>\<open>self.parameters[var].value = RANGES[var].default\<close>.
\<close>

definition reset_value :: "Range \<Rightarrow> Parameter \<Rightarrow> Parameter" where
  "reset_value rng p = p\<lparr>p_value := default_val rng\<rparr>"

text \<open>
  The two ways the window changes the value of a parameter after its construction, and
  a run of them in sequence, stopping at the first exception.
\<close>

datatype scaler_op = Set_from_slider int | Reset

fun apply_op :: "Range \<Rightarrow> Parameter \<Rightarrow> scaler_op \<Rightarrow> py_error + Parameter" where
  "apply_op rng p (Set_from_slider v) = set_from_slider_value p v"
| "apply_op rng p Reset = Inr (reset_value rng p)"

fun run_ops :: "Range \<Rightarrow> Parameter \<Rightarrow> scaler_op list \<Rightarrow> py_error + Parameter" where
  "run_ops rng p [] = Inr p"
| "run_ops rng p (x # xs) = then_do (apply_op rng p x) (\<lambda>p'. run_ops rng p' xs)"

fun slider_position_ok :: "scaler_op \<Rightarrow> bool" where
  "slider_position_ok (Set_from_slider v) = (0 \<le> v \<and> v \<le> SLIDER_MAX)"
| "slider_position_ok Reset = True"

section \<open>The window\<close>

text \<open>
  Dictionaries keep insertion order; \<^verbatim>\<open>d[k]\<close> raises \<^verbatim>\<open>KeyError\<close> on a missing key,
  and assigning to a key that is present keeps its place.
\<close>

fun dict_get :: "(string \<times> 'a) list \<Rightarrow> string \<Rightarrow> py_error + 'a" where
  "dict_get [] k = Inl KeyError"
| "dict_get ((k', x) # d) k = (if k' = k then Inr x else dict_get d k)"

fun dict_put :: "(string \<times> 'a) list \<Rightarrow> string \<Rightarrow> 'a \<Rightarrow> (string \<times> 'a) list" where
  "dict_put [] k y = [(k, y)]"
| "dict_put ((k', x) # d) k y = (if k' = k then (k, y) # d else (k', x) # dict_put d k y)"

fun join :: "string \<Rightarrow> string list \<Rightarrow> string" where
  "join sep [] = []"
| "join sep [x] = x"
| "join sep (x # y # xs) = x @ sep @ join sep (y # xs)"

text \<open>
  What the slots read and write of the window: the parameters, the position of each
  slider, the text of each label, and the commands sent to the player so far.
\<close>

record MainWindow =
  parameters :: "(string \<times> Parameter) list"
  sliders :: "(string \<times> int) list"
  labels :: "(string \<times> string) list"
  mpv_commands :: "string list list"

text \<open>The filter string: \<^verbatim>\<open>'eq=' + ':'.join(f'{p.var}={p.label()}' for p in ...values())\<close>.\<close>

definition filter_string :: "(string \<times> Parameter) list \<Rightarrow> string" where
  "filter_string ps = ''eq='' @ join '':'' (map (\<lambda>(k, p). p_var p @ ''='' @ label p) ps)"

definition slot_slider_value_changed ::
    "MainWindow \<Rightarrow> string \<Rightarrow> int \<Rightarrow> py_error + MainWindow" where
  "slot_slider_value_changed w var v =
     then_do (dict_get (parameters w) var) (\<lambda>p.
     then_do (set_from_slider_value p v) (\<lambda>p'.
     then_do (dict_get (labels w) var) (\<lambda>_.
       let ps = dict_put (parameters w) var p'
       in Inr (w\<lparr>parameters := ps,
                  labels := dict_put (labels w) var (label p'),
                  mpv_commands := mpv_commands w @ [[''vf'', ''set'', filter_string ps]]\<rparr>))))"

text \<open>
  \<^verbatim>\<open>slot_reset_var\<close>: the value goes back to the default and the slider is moved to its
  position.  (The widget then reports the move like any other slider change.)
\<close>

definition slot_reset_var :: "MainWindow \<Rightarrow> string \<Rightarrow> py_error + MainWindow" where
  "slot_reset_var w var =
     then_do (dict_get (parameters w) var) (\<lambda>p.
     then_do (dict_get RANGES var) (\<lambda>rng.
       let p' = reset_value rng p
       in then_do (dict_get (sliders w) var) (\<lambda>_.
          then_do (slider_value p') (\<lambda>pos.
            Inr (w\<lparr>parameters := dict_put (parameters w) var p',
                     sliders := dict_put (sliders w) var pos\<rparr>)))))"

text \<open>The part of \<^verbatim>\<open>MainWindow.__init__\<close> that builds the parameters and sets the widgets.\<close>

fun build_parameters :: "(string \<times> Range) list \<Rightarrow> py_error + (string \<times> Parameter) list" where
  "build_parameters [] = Inr []"
| "build_parameters ((var, rng) # rs) =
     then_do (Parameter_init var rng) (\<lambda>p.
     then_do (build_parameters rs) (\<lambda>ps. Inr ((var, p) # ps)))"

fun initial_positions :: "(string \<times> Parameter) list \<Rightarrow> py_error + (string \<times> int) list" where
  "initial_positions [] = Inr []"
| "initial_positions ((var, p) # ps) =
     then_do (slider_value p) (\<lambda>pos.
     then_do (initial_positions ps) (\<lambda>rest. Inr ((var, pos) # rest)))"

definition MainWindow_init :: "py_error + MainWindow" where
  "MainWindow_init =
     then_do (build_parameters RANGES) (\<lambda>ps.
     then_do (initial_positions ps) (\<lambda>sl.
       Inr \<lparr>parameters = ps, sliders = sl,
            labels = map (\<lambda>(var, p). (var, label p)) ps,
            mpv_commands = []\<rparr>))"

section \<open>What a float stands for\<close>

text \<open>
  The real number of a finite float, and the floats whose significand field is a
  magnitude.  \<open>is_finite_double\<close> holds of the canonical forms, one for each finite double.
\<close>

definition fval :: "pyfloat \<Rightarrow> real" where
  "fval x = (case x of Finite s m e \<Rightarrow> real_of_int (with_sign s m) * 2 powi e | _ \<Rightarrow> 0)"

fun finite_float :: "pyfloat \<Rightarrow> bool" where
  "finite_float (Finite s m e) = (0 \<le> m)"
| "finite_float _ = False"

fun float_ok :: "pyfloat \<Rightarrow> bool" where
  "float_ok (Finite s m e) = (0 \<le> m)"
| "float_ok (Infinity s) = True"
| "float_ok NaN = False"

fun is_finite_double :: "pyfloat \<Rightarrow> bool" where
  "is_finite_double (Finite s m e) =
     (if m = 0 then e = 0
      else 0 < m \<and> m < 2 ^ 53 \<and> - 1074 \<le> e \<and> e \<le> 971 \<and> (2 ^ 52 \<le> m \<or> e = - 1074))"
| "is_finite_double _ = False"

text \<open>
  The magnitude \<open>round_ratio\<close> rounds \<open>a / b\<close> to, before the overflow check, and the
  rounding of a signed integer multiple of a power of two.
\<close>

definition rmag :: "int \<Rightarrow> int \<Rightarrow> real" where
  "rmag a b =
     (let e = max (ilog2 a b - 52) (- 1074)
      in real_of_int (round_half_even (a * 2 ^ nat (- e)) (b * 2 ^ nat e)) * 2 powi e)"

definition sgn_real :: "bool \<Rightarrow> real \<Rightarrow> real" where
  "sgn_real s x = (if s then - x else x)"

definition round_int :: "int \<Rightarrow> int \<Rightarrow> pyfloat" where
  "round_int a e = round_scaled (a < 0) \<bar>a\<bar> e"

text \<open>
  What evaluation checks of one range: construction returns, positions 0 and
  \<open>SLIDER_MAX\<close> give min and max, min and max give the positions 0 and \<open>SLIDER_MAX\<close>,
  and the positions just outside the slider give values just outside the range.
\<close>

definition checked_range :: "string \<Rightarrow> Range \<Rightarrow> bool" where
  "checked_range var rng =
     (case Parameter_init var rng of
        Inl _ \<Rightarrow> False
      | Inr p \<Rightarrow>
          p_value p = default_val rng \<and>
          finite_float (p_offset p) \<and> finite_float (p_scale p) \<and>
          flt (Finite False 0 0) (p_scale p) \<and>
          is_finite_double (min_val rng) \<and> is_finite_double (max_val rng) \<and>
          is_finite_double (default_val rng) \<and>
          fle (min_val rng) (default_val rng) \<and> fle (default_val rng) (max_val rng) \<and>
          set_from_slider_value p 0 = Inr (p\<lparr>p_value := min_val rng\<rparr>) \<and>
          set_from_slider_value p SLIDER_MAX = Inr (p\<lparr>p_value := max_val rng\<rparr>) \<and>
          slider_value (p\<lparr>p_value := min_val rng\<rparr>) = Inr 0 \<and>
          slider_value (p\<lparr>p_value := max_val rng\<rparr>) = Inr SLIDER_MAX \<and>
          (case set_from_slider_value p (- 1) of
             Inl _ \<Rightarrow> False
           | Inr q \<Rightarrow> finite_float (p_value q) \<and> flt (p_value q) (min_val rng)) \<and>
          (case set_from_slider_value p (SLIDER_MAX + 1) of
             Inl _ \<Rightarrow> False
           | Inr q \<Rightarrow> finite_float (p_value q) \<and> flt (max_val rng) (p_value q)))"

section \<open>Rounding to nearest, ties to even\<close>

lemma rhe_cases:
  assumes "0 < d"
  obtains q r where "n = q * d + r" "0 \<le> r" "r < d"
    "round_half_even n d = (if 2 * r < d then q else if d < 2 * r then q + 1 else if even q then q else q + 1)"
proof -
  have "n = (n div d) * d + n mod d" by simp
  moreover have "0 \<le> n mod d" "n mod d < d" using assms by simp_all
  moreover have "round_half_even n d = (if 2 * (n mod d) < d then n div d else if d < 2 * (n mod d) then n div d + 1 else if even (n div d) then n div d else n div d + 1)"
    by (simp add: round_half_even_def Let_def)
  ultimately show ?thesis using that by blast
qed

lemma rhe_upper: "0 < d \<Longrightarrow> 2 * (round_half_even n d * d) \<le> 2 * n + d"
  by (rule rhe_cases[of d n]) (auto simp: algebra_simps)

lemma rhe_lower: "0 < d \<Longrightarrow> 2 * n - d \<le> 2 * (round_half_even n d * d)"
  by (rule rhe_cases[of d n]) (auto simp: algebra_simps)

lemma rhe_tie_up: "0 < d \<Longrightarrow> 2 * (round_half_even n d * d) = 2 * n + d \<Longrightarrow> even (round_half_even n d)"
  by (rule rhe_cases[of d n]) (auto simp: algebra_simps split: if_splits)

lemma rhe_tie_down: "0 < d \<Longrightarrow> 2 * (round_half_even n d * d) = 2 * n - d \<Longrightarrow> even (round_half_even n d)"
  by (rule rhe_cases[of d n]) (auto simp: algebra_simps split: if_splits)

lemma rhe_le_real: "0 < d \<Longrightarrow> real_of_int (round_half_even n d) \<le> real_of_int n / real_of_int d + 1 / 2"
proof -
  assume d: "0 < d"
  have "real_of_int (2 * (round_half_even n d * d)) \<le> real_of_int (2 * n + d)"
    using rhe_upper[OF d, of n] by linarith
  then show ?thesis using d by (simp add: field_simps)
qed

lemma rhe_ge_real: "0 < d \<Longrightarrow> real_of_int n / real_of_int d - 1 / 2 \<le> real_of_int (round_half_even n d)"
proof -
  assume d: "0 < d"
  have "real_of_int (2 * n - d) \<le> real_of_int (2 * (round_half_even n d * d))"
    using rhe_lower[OF d, of n] by linarith
  then show ?thesis using d by (simp add: field_simps)
qed

lemma rhe_tie_up_real:
  assumes d: "0 < d" and "real_of_int (round_half_even n d) = real_of_int n / real_of_int d + 1 / 2"
  shows "even (round_half_even n d)"
proof -
  have "real_of_int (2 * (round_half_even n d * d)) = real_of_int (2 * n + d)"
    using assms by (simp add: field_simps)
  then have "2 * (round_half_even n d * d) = 2 * n + d" by linarith
  then show ?thesis by (rule rhe_tie_up[OF d])
qed

lemma rhe_tie_down_real:
  assumes d: "0 < d" and "real_of_int (round_half_even n d) = real_of_int n / real_of_int d - 1 / 2"
  shows "even (round_half_even n d)"
proof -
  have "real_of_int (2 * (round_half_even n d * d)) = real_of_int (2 * n - d)"
    using assms by (simp add: field_simps)
  then have "2 * (round_half_even n d * d) = 2 * n - d" by linarith
  then show ?thesis by (rule rhe_tie_down[OF d])
qed

lemma rhe_mono:
  assumes d1: "0 < d1" and d2: "0 < d2"
    and le: "real_of_int n1 / real_of_int d1 \<le> real_of_int n2 / real_of_int d2"
  shows "round_half_even n1 d1 \<le> round_half_even n2 d2"
proof (rule ccontr)
  let ?r1 = "round_half_even n1 d1" and ?r2 = "round_half_even n2 d2"
  let ?x1 = "real_of_int n1 / real_of_int d1" and ?x2 = "real_of_int n2 / real_of_int d2"
  assume "\<not> ?r1 \<le> ?r2"
  then have gt: "?r2 + 1 \<le> ?r1" by simp
  then have gtr: "real_of_int ?r2 + 1 \<le> real_of_int ?r1" by linarith
  have u: "real_of_int ?r1 \<le> ?x1 + 1 / 2" by (rule rhe_le_real[OF d1])
  have l: "?x2 - 1 / 2 \<le> real_of_int ?r2" by (rule rhe_ge_real[OF d2])
  have e1: "real_of_int ?r1 = ?x1 + 1 / 2" using gtr u l le by linarith
  have e2: "real_of_int ?r2 = ?x2 - 1 / 2" using gtr u l le by linarith
  have "real_of_int ?r1 = real_of_int ?r2 + 1" using gtr u l le by linarith
  then have eq: "?r1 = ?r2 + 1" by linarith
  have "even ?r1" by (rule rhe_tie_up_real[OF d1 e1])
  moreover have "even ?r2" by (rule rhe_tie_down_real[OF d2 e2])
  ultimately show False using eq by simp
qed

lemma rhe_exact: "0 < d \<Longrightarrow> round_half_even (k * d) d = k"
  by (simp add: round_half_even_def Let_def)

lemma rhe_ge:
  assumes d: "0 < d" and "real_of_int k \<le> real_of_int n / real_of_int d"
  shows "k \<le> round_half_even n d"
proof -
  have "round_half_even (k * 1) 1 \<le> round_half_even n d"
    by (rule rhe_mono) (use assms in simp_all)
  then show ?thesis using rhe_exact[of 1 k] by simp
qed

lemma rhe_le:
  assumes d: "0 < d" and "real_of_int n / real_of_int d \<le> real_of_int k"
  shows "round_half_even n d \<le> k"
proof -
  have "round_half_even n d \<le> round_half_even (k * 1) 1"
    by (rule rhe_mono) (use assms in simp_all)
  then show ?thesis using rhe_exact[of 1 k] by simp
qed

lemma rhe_near:
  assumes d: "0 < d" and "\<bar>real_of_int n / real_of_int d - real_of_int k\<bar> < 1 / 2"
  shows "round_half_even n d = k"
proof -
  have "real_of_int (round_half_even n d) < real_of_int k + 1"
    using rhe_le_real[OF d, of n] assms(2) by linarith
  moreover have "real_of_int k - 1 < real_of_int (round_half_even n d)"
    using rhe_ge_real[OF d, of n] assms(2) by linarith
  ultimately show ?thesis by linarith
qed

lemma powi_mono: "i \<le> j \<Longrightarrow> (2::real) powi i \<le> 2 powi j"
  by (rule power_int_increasing) simp_all

lemma powi_strict_mono: "i < j \<Longrightarrow> (2::real) powi i < 2 powi j"
  by (rule power_int_strict_increasing) simp_all

lemma powi_le_iff: "(2::real) powi i \<le> 2 powi j \<longleftrightarrow> i \<le> j"
  using powi_mono[of i j] powi_strict_mono[of j i] by (auto simp: not_le[symmetric])

lemma powi_less_iff: "(2::real) powi i < 2 powi j \<longleftrightarrow> i < j"
  using powi_mono[of j i] powi_strict_mono[of i j] by (auto simp: not_less[symmetric])

lemma powi_add: "(2::real) powi (i + j) = 2 powi i * 2 powi j"
  by (rule power_int_add) simp

lemma powi_pos: "0 < (2::real) powi i"
  by simp

lemma two_powi_nat: "real_of_int (2 ^ nat e) = (if 0 \<le> e then 2 powi e else 1)"
  by (simp add: power_int_nonneg_exp)

lemma scaled_ratio:
  "real_of_int (a * 2 ^ nat (- e)) / real_of_int (b * 2 ^ nat e) =
     real_of_int a / real_of_int b * 2 powi (- e)"
proof (cases "0 \<le> e")
  case True
  then have "real_of_int (2 ^ nat e) = 2 powi e" "real_of_int (2 ^ nat (- e)) = 1"
    using two_powi_nat[of e] two_powi_nat[of "- e"] by simp_all
  then show ?thesis by (simp add: power_int_minus field_simps)
next
  case False
  then have "real_of_int (2 ^ nat e) = 1" "real_of_int (2 ^ nat (- e)) = 2 powi (- e)"
    using two_powi_nat[of e] two_powi_nat[of "- e"] by simp_all
  then show ?thesis by simp
qed

lemma bitlen_powi:
  assumes "0 < a"
  shows "2 powi (bitlen a - 1) \<le> real_of_int a" and "real_of_int a < 2 powi (bitlen a)"
proof -
  have b: "1 \<le> bitlen a" using assms bitlen_eq_zero_iff[of a] bitlen_nonneg[of a] by linarith
  have "2 ^ nat (bitlen a - 1) \<le> a" "a < 2 ^ nat (bitlen a)"
    using bitlen_bounds[OF assms] by simp_all
  then have "real_of_int (2 ^ nat (bitlen a - 1)) \<le> real_of_int a"
    "real_of_int a < real_of_int (2 ^ nat (bitlen a))"
    by linarith+
  then show "2 powi (bitlen a - 1) \<le> real_of_int a" "real_of_int a < 2 powi (bitlen a)"
    using b unfolding two_powi_nat by simp_all
qed

lemma ilog2_test:
  assumes "0 < b"
  shows "b * 2 ^ nat k \<le> a * 2 ^ nat (- k) \<longleftrightarrow> 2 powi k \<le> real_of_int a / real_of_int b"
proof -
  have "b * 2 ^ nat k \<le> a * 2 ^ nat (- k) \<longleftrightarrow>
        real_of_int (b * 2 ^ nat k) \<le> real_of_int (a * 2 ^ nat (- k))"
    by linarith
  also have "\<dots> \<longleftrightarrow> 1 \<le> real_of_int (a * 2 ^ nat (- k)) / real_of_int (b * 2 ^ nat k)"
    using assms by (simp add: field_simps)
  also have "\<dots> \<longleftrightarrow> 1 \<le> real_of_int a / real_of_int b * 2 powi (- k)"
    by (simp only: scaled_ratio)
  also have "\<dots> \<longleftrightarrow> 2 powi k \<le> real_of_int a / real_of_int b"
    using powi_pos[of k] assms by (simp add: power_int_minus field_simps)
  finally show ?thesis .
qed

lemma ilog2_bounds:
  assumes a: "0 < a" and b: "0 < b"
  shows "2 powi (ilog2 a b) \<le> real_of_int a / real_of_int b"
    and "real_of_int a / real_of_int b < 2 powi (ilog2 a b + 1)"
proof -
  define k where "k = bitlen a - bitlen b"
  let ?x = "real_of_int a / real_of_int b"
  have rb: "0 < real_of_int b" using b by simp
  have lo: "2 powi (k - 1) < ?x"
  proof -
    have "2 powi (k - 1) * real_of_int b < 2 powi (k - 1) * 2 powi (bitlen b)"
      using bitlen_powi(2)[OF b] by simp
    also have "\<dots> = 2 powi (bitlen a - 1)"
      by (simp add: k_def powi_add[symmetric])
    also have "\<dots> \<le> real_of_int a" by (rule bitlen_powi(1)[OF a])
    finally show ?thesis using rb by (simp add: field_simps)
  qed
  have hi: "?x < 2 powi (k + 1)"
  proof -
    have "real_of_int a < 2 powi (bitlen a)" by (rule bitlen_powi(2)[OF a])
    also have "\<dots> = 2 powi (k + 1) * 2 powi (bitlen b - 1)"
      by (simp add: k_def powi_add[symmetric])
    also have "\<dots> \<le> 2 powi (k + 1) * real_of_int b"
      using bitlen_powi(1)[OF b] by simp
    finally show ?thesis using rb by (simp add: field_simps)
  qed
  have il: "ilog2 a b = (if 2 powi k \<le> ?x then k else k - 1)"
    unfolding ilog2_def Let_def k_def[symmetric] ilog2_test[OF b] ..
  show "2 powi (ilog2 a b) \<le> ?x" using lo by (simp add: il)
  show "?x < 2 powi (ilog2 a b + 1)" using hi by (simp add: il)
qed

lemma ilog2_unique:
  assumes "0 < a" "0 < b" "2 powi j \<le> real_of_int a / real_of_int b"
    "real_of_int a / real_of_int b < 2 powi (j + 1)"
  shows "ilog2 a b = j"
proof -
  have "2 powi j < (2::real) powi (ilog2 a b + 1)"
    using assms ilog2_bounds(2)[of a b] by linarith
  moreover have "2 powi (ilog2 a b) < (2::real) powi (j + 1)"
    using assms ilog2_bounds(1)[of a b] by linarith
  ultimately show ?thesis by (simp add: powi_less_iff)
qed

lemma ilog2_mono:
  assumes "0 < a" "0 < b" "0 < c" "0 < d"
    "real_of_int a / real_of_int b \<le> real_of_int c / real_of_int d"
  shows "ilog2 a b \<le> ilog2 c d"
proof -
  have "2 powi (ilog2 a b) < (2::real) powi (ilog2 c d + 1)"
    using ilog2_bounds(1)[of a b] ilog2_bounds(2)[of c d] assms by linarith
  then show ?thesis by (simp add: powi_less_iff)
qed

lemma fval_Finite [simp]: "fval (Finite s m e) = real_of_int (with_sign s m) * 2 powi e"
  by (simp add: fval_def)

lemma scaled_den_pos: "0 < b \<Longrightarrow> 0 < b * 2 ^ nat e" for b :: int
  by simp

lemma rhe_scaled_bounds:
  assumes a: "0 < a" and b: "0 < b"
  defines "e \<equiv> max (ilog2 a b - 52) (- 1074)"
  defines "m \<equiv> round_half_even (a * 2 ^ nat (- e)) (b * 2 ^ nat e)"
  shows "m \<le> 2 ^ 53" and "0 \<le> m"
    and "- 1074 \<le> ilog2 a b - 52 \<Longrightarrow> 2 ^ 52 \<le> m"
    and "\<bar>real_of_int m - real_of_int a / real_of_int b * 2 powi (- e)\<bar> \<le> 1 / 2"
    and "2 powi (- 1074) \<le> real_of_int a / real_of_int b \<Longrightarrow> 1 \<le> m"
proof -
  let ?x = "real_of_int a / real_of_int b"
  let ?k = "ilog2 a b"
  have d: "0 < b * 2 ^ nat e" using b by simp
  have q: "real_of_int (a * 2 ^ nat (- e)) / real_of_int (b * 2 ^ nat e) = ?x * 2 powi (- e)"
    by (rule scaled_ratio)
  have x0: "0 < ?x" using a b by simp
  have lo: "2 powi ?k \<le> ?x" and hi: "?x < 2 powi (?k + 1)"
    using ilog2_bounds[OF a b] by simp_all
  have ek: "?k - 52 \<le> e" by (simp add: e_def)
  have "?x * 2 powi (- e) < 2 powi (?k + 1) * 2 powi (- e)"
    by (rule mult_strict_right_mono[OF hi powi_pos])
  also have "\<dots> = 2 powi (?k + 1 - e)" by (simp add: powi_add[symmetric])
  also have "\<dots> \<le> 2 powi 53" using ek by (intro powi_mono) simp
  finally have "?x * 2 powi (- e) \<le> real_of_int (2 ^ 53)" by simp
  then show "m \<le> 2 ^ 53" unfolding m_def by (intro rhe_le[OF d]) (simp only: q)
  have "real_of_int 0 \<le> ?x * 2 powi (- e)"
    using mult_nonneg_nonneg[of ?x "2 powi (- e)"] x0 by simp
  then show "0 \<le> m" unfolding m_def by (intro rhe_ge[OF d]) (simp only: q)
  show "2 ^ 52 \<le> m" if "- 1074 \<le> ?k - 52"
  proof -
    from that have e: "e = ?k - 52" by (simp add: e_def)
    have "real_of_int (2 ^ 52) = 2 powi (?k - e)" by (simp add: e)
    also have "\<dots> = 2 powi ?k * 2 powi (- e)" by (simp add: powi_add[symmetric])
    also have "\<dots> \<le> ?x * 2 powi (- e)"
      by (rule mult_right_mono[OF lo]) simp
    finally show ?thesis unfolding m_def by (intro rhe_ge[OF d]) (simp only: q)
  qed
  show "\<bar>real_of_int m - ?x * 2 powi (- e)\<bar> \<le> 1 / 2"
    using rhe_le_real[OF d, of "a * 2 ^ nat (- e)"] rhe_ge_real[OF d, of "a * 2 ^ nat (- e)"]
    unfolding q m_def by linarith
  show "1 \<le> m" if "2 powi (- 1074) \<le> ?x"
  proof (cases "- 1074 \<le> ?k - 52")
    case True
    have "(2::int) ^ 52 \<le> m" using True by fact
    then show ?thesis by simp
  next
    case False
    then have e: "e = - 1074" by (simp add: e_def)
    have "real_of_int 1 = 2 powi (- 1074) * 2 powi (- e)" by (simp add: e powi_add[symmetric])
    also have "\<dots> \<le> ?x * 2 powi (- e)"
      by (rule mult_right_mono[OF that]) simp
    finally show ?thesis unfolding m_def by (intro rhe_ge[OF d]) (simp only: q)
  qed
qed

lemma rmag_zero: "0 < b \<Longrightarrow> rmag 0 b = 0"
  using rhe_exact[of "b * 2 ^ nat (max (ilog2 0 b - 52) (- 1074))" 0]
  by (simp add: rmag_def Let_def)

lemma rmag_nonneg: "0 \<le> a \<Longrightarrow> 0 < b \<Longrightarrow> 0 \<le> rmag a b"
proof (cases "a = 0")
  case True
  assume "0 < b"
  then show ?thesis using True by (simp add: rmag_zero)
next
  case False
  assume "0 \<le> a" "0 < b"
  then have "0 \<le> round_half_even (a * 2 ^ nat (- max (ilog2 a b - 52) (- 1074)))
      (b * 2 ^ nat (max (ilog2 a b - 52) (- 1074)))"
    using False by (intro rhe_scaled_bounds(2)) simp_all
  then show ?thesis by (simp add: rmag_def Let_def)
qed

lemma round_ratio_pos:
  assumes "a \<noteq> 0"
  shows "round_ratio s a b =
     (let e = max (ilog2 a b - 52) (- 1074);
          m = round_half_even (a * 2 ^ nat (- e)) (b * 2 ^ nat e)
      in if m = 0 then Finite s 0 0
         else if m = 2 ^ 53 then (if 971 < e + 1 then Infinity s else Finite s (2 ^ 52) (e + 1))
         else (if 971 < e then Infinity s else Finite s m e))"
  unfolding round_ratio_def using assms by (simp only: if_False)

lemma round_ratio_inf:
  assumes a: "0 \<le> a" and b: "0 < b" and big: "2 powi 1024 \<le> rmag a b"
  shows "round_ratio s a b = Infinity s"
proof -
  have a0: "0 < a"
  proof (rule ccontr)
    assume "\<not> 0 < a"
    then have "a = 0" using a by simp
    then have "rmag a b = 0" using b by (simp add: rmag_zero)
    then show False using big powi_pos[of 1024] by linarith
  qed
  define e where "e = max (ilog2 a b - 52) (- 1074)"
  define m where "m = round_half_even (a * 2 ^ nat (- e)) (b * 2 ^ nat e)"
  have M: "rmag a b = real_of_int m * 2 powi e" by (simp add: rmag_def Let_def e_def m_def)
  have m53: "m \<le> 2 ^ 53" and m0: "0 \<le> m"
    using rhe_scaled_bounds(1,2)[OF a0 b] by (simp_all add: m_def e_def)
  have "2 powi 1024 \<le> real_of_int m * 2 powi e" using big M by simp
  also have "\<dots> \<le> real_of_int (2 ^ 53) * 2 powi e"
    by (rule mult_right_mono) (use m53 in simp_all)
  also have "\<dots> = 2 powi (53 + e)" by (simp add: powi_add)
  finally have "(2::real) powi 1024 \<le> 2 powi (53 + e)" .
  then have e971: "971 \<le> e" unfolding powi_le_iff by linarith
  have mpos: "m \<noteq> 0" using big M powi_pos[of 1024] by auto
  have m_eq: "m = 2 ^ 53" if "e = 971"
  proof -
    have "2 powi 1024 \<le> real_of_int m * 2 powi 971" using big M that by simp
    also have "(2::real) powi 1024 = real_of_int (2 ^ 53) * 2 powi 971" by simp
    finally have "real_of_int (2 ^ 53) * 2 powi 971 \<le> real_of_int m * 2 powi 971" .
    then have "real_of_int (2 ^ 53) \<le> real_of_int m"
      by (rule mult_right_le_imp_le) (rule powi_pos)
    then show ?thesis using m53 by simp
  qed
  show ?thesis
    unfolding round_ratio_pos[of a s b, OF less_imp_neq[OF a0, symmetric]] Let_def
      e_def[symmetric] m_def[symmetric]
    using e971 mpos m_eq by auto
qed

lemma round_ratio_fin:
  assumes a: "0 \<le> a" and b: "0 < b" and small: "rmag a b < 2 powi 1024"
  shows "\<exists>m e. round_ratio s a b = Finite s m e \<and> 0 \<le> m \<and> real_of_int m * 2 powi e = rmag a b"
proof (cases "a = 0")
  case True
  then show ?thesis using b by (simp add: round_ratio_def rmag_zero)
next
  case False
  then have a0: "0 < a" using a by simp
  define e where "e = max (ilog2 a b - 52) (- 1074)"
  define m where "m = round_half_even (a * 2 ^ nat (- e)) (b * 2 ^ nat e)"
  have M: "rmag a b = real_of_int m * 2 powi e" by (simp add: rmag_def Let_def e_def m_def)
  have m53: "m \<le> 2 ^ 53" and m0: "0 \<le> m"
    using rhe_scaled_bounds(1,2)[OF a0 b] by (simp_all add: m_def e_def)
  have m52: "2 ^ 52 \<le> m" if "- 1074 < e"
  proof -
    from that have "- 1074 \<le> ilog2 a b - 52" by (simp add: e_def max_def split: if_splits)
    then show ?thesis using rhe_scaled_bounds(3)[OF a0 b] by (simp add: m_def e_def)
  qed
  have rr: "round_ratio s a b =
      (if m = 0 then Finite s 0 0
       else if m = 2 ^ 53 then (if 971 < e + 1 then Infinity s else Finite s (2 ^ 52) (e + 1))
       else (if 971 < e then Infinity s else Finite s m e))"
    unfolding round_ratio_pos[of a s b, OF False] Let_def e_def[symmetric] m_def[symmetric] ..
  consider "m = 0" | "m = 2 ^ 53" | "m \<noteq> 0" "m \<noteq> 2 ^ 53" by blast
  then show ?thesis
  proof cases
    case 1
    then show ?thesis using rr M by simp
  next
    case 2
    have "2 powi (53 + e) = real_of_int m * 2 powi e" using 2 by (simp add: powi_add)
    also have "\<dots> < 2 powi 1024" using small M by simp
    finally have "(2::real) powi (53 + e) < 2 powi 1024" .
    then have "e \<le> 970" unfolding powi_less_iff by linarith
    moreover have "real_of_int (2 ^ 52) * 2 powi (e + 1) = real_of_int m * 2 powi e"
      using 2 by (simp add: powi_add)
    ultimately show ?thesis using rr 2 M by simp
  next
    case 3
    have "e \<le> 971"
    proof (rule ccontr)
      assume "\<not> e \<le> 971"
      then have e: "972 \<le> e" by simp
      then have "2 ^ 52 \<le> m" using m52 by simp
      have "(2::real) powi 1024 \<le> 2 powi (52 + e)" using e by (intro powi_mono) simp
      also have "\<dots> = real_of_int (2 ^ 52) * 2 powi e" by (simp add: powi_add)
      also have "\<dots> \<le> real_of_int m * 2 powi e"
        by (rule mult_right_mono) (use \<open>2 ^ 52 \<le> m\<close> in simp_all)
      finally show False using small M by simp
    qed
    then show ?thesis using rr 3 M m0 by simp
  qed
qed

lemma rmag_mono:
  assumes a: "0 \<le> a" and b: "0 < b" and c: "0 \<le> c" and d: "0 < d"
    and le: "real_of_int a / real_of_int b \<le> real_of_int c / real_of_int d"
  shows "rmag a b \<le> rmag c d"
proof (cases "a = 0")
  case True
  then show ?thesis using rmag_nonneg[OF c d] b by (simp add: rmag_zero)
next
  case False
  then have a0: "0 < a" using a by simp
  have "0 < real_of_int a / real_of_int b" using a0 b by simp
  then have "0 < real_of_int c / real_of_int d" using le by linarith
  then have c0: "0 < c" using c d by (simp add: zero_less_divide_iff)
  define e1 where "e1 = max (ilog2 a b - 52) (- 1074)"
  define e2 where "e2 = max (ilog2 c d - 52) (- 1074)"
  define m1 where "m1 = round_half_even (a * 2 ^ nat (- e1)) (b * 2 ^ nat e1)"
  define m2 where "m2 = round_half_even (c * 2 ^ nat (- e2)) (d * 2 ^ nat e2)"
  have M1: "rmag a b = real_of_int m1 * 2 powi e1" by (simp add: rmag_def Let_def e1_def m1_def)
  have M2: "rmag c d = real_of_int m2 * 2 powi e2" by (simp add: rmag_def Let_def e2_def m2_def)
  have "ilog2 a b \<le> ilog2 c d" by (rule ilog2_mono[OF a0 b c0 d le])
  then have e12: "e1 \<le> e2" by (simp add: e1_def e2_def)
  show ?thesis
  proof (cases "e1 = e2")
    case True
    have "m1 \<le> m2" unfolding m1_def m2_def True
    proof (rule rhe_mono)
      show "0 < b * 2 ^ nat e2" "0 < d * 2 ^ nat e2" using b d by simp_all
      show "real_of_int (a * 2 ^ nat (- e2)) / real_of_int (b * 2 ^ nat e2)
           \<le> real_of_int (c * 2 ^ nat (- e2)) / real_of_int (d * 2 ^ nat e2)"
        unfolding scaled_ratio by (rule mult_right_mono[OF le]) simp
    qed
    then have "real_of_int m1 * 2 powi e2 \<le> real_of_int m2 * 2 powi e2"
      by (intro mult_right_mono) simp_all
    then show ?thesis using M1 M2 True by simp
  next
    case False
    then have lt: "e1 < e2" using e12 by simp
    then have "- 1074 < e2" by (simp add: e1_def)
    then have k2: "- 1074 \<le> ilog2 c d - 52" and e2: "e2 = ilog2 c d - 52"
      by (simp_all add: e2_def max_def split: if_splits)
    have m2: "2 ^ 52 \<le> m2" using rhe_scaled_bounds(3)[OF c0 d k2] by (simp add: m2_def e2_def)
    have m1: "m1 \<le> 2 ^ 53" using rhe_scaled_bounds(1)[OF a0 b] by (simp add: m1_def e1_def)
    have "real_of_int m1 * 2 powi e1 \<le> real_of_int (2 ^ 53) * 2 powi e1"
      by (rule mult_right_mono) (use m1 in simp_all)
    also have "\<dots> = 2 powi (53 + e1)" by (simp add: powi_add)
    also have "\<dots> \<le> 2 powi (52 + e2)" using lt by (intro powi_mono) simp
    also have "\<dots> = real_of_int (2 ^ 52) * 2 powi e2" by (simp add: powi_add)
    also have "\<dots> \<le> real_of_int m2 * 2 powi e2"
      by (rule mult_right_mono) (use m2 in simp_all)
    finally show ?thesis using M1 M2 by simp
  qed
qed

lemma rmag_err:
  assumes a: "0 \<le> a" and b: "0 < b"
    and x: "real_of_int a / real_of_int b < 2 powi K" and K: "- 1021 \<le> K"
  shows "\<bar>rmag a b - real_of_int a / real_of_int b\<bar> \<le> 2 powi (K - 54)"
proof (cases "a = 0")
  case True
  then show ?thesis using b by (simp add: rmag_zero)
next
  case False
  then have a0: "0 < a" using a by simp
  let ?x = "real_of_int a / real_of_int b"
  define e where "e = max (ilog2 a b - 52) (- 1074)"
  define m where "m = round_half_even (a * 2 ^ nat (- e)) (b * 2 ^ nat e)"
  have M: "rmag a b = real_of_int m * 2 powi e" by (simp add: rmag_def Let_def e_def m_def)
  have "2 powi (ilog2 a b) < (2::real) powi K"
    using ilog2_bounds(1)[OF a0 b] x by linarith
  then have "ilog2 a b < K" by (simp only: powi_less_iff)
  then have eK: "e - 1 \<le> K - 54" using K by (simp add: e_def)
  have h: "\<bar>real_of_int m - ?x * 2 powi (- e)\<bar> \<le> 1 / 2"
    using rhe_scaled_bounds(4)[OF a0 b] by (simp add: m_def e_def)
  have "rmag a b - ?x = (real_of_int m - ?x * 2 powi (- e)) * 2 powi e"
    by (simp add: M algebra_simps powi_add[symmetric])
  then have "\<bar>rmag a b - ?x\<bar> = \<bar>real_of_int m - ?x * 2 powi (- e)\<bar> * 2 powi e"
    by (simp add: abs_mult)
  also have "\<dots> \<le> 1 / 2 * 2 powi e"
    by (rule mult_right_mono[OF h]) simp
  also have "\<dots> = 2 powi (e - 1)" by (simp add: power_int_diff)
  also have "\<dots> \<le> 2 powi (K - 54)" by (rule powi_mono[OF eK])
  finally show ?thesis .
qed

lemma rmag_pos:
  assumes a: "0 < a" and b: "0 < b"
    and x: "2 powi (- 1074) \<le> real_of_int a / real_of_int b"
  shows "0 < rmag a b"
proof -
  have "1 \<le> round_half_even (a * 2 ^ nat (- max (ilog2 a b - 52) (- 1074)))
      (b * 2 ^ nat (max (ilog2 a b - 52) (- 1074)))"
    by (rule rhe_scaled_bounds(5)[OF a b x])
  then show ?thesis by (simp add: rmag_def Let_def)
qed

lemma with_sign_real: "real_of_int (with_sign s m) = (if s then - real_of_int m else real_of_int m)"
  by (simp add: with_sign_def)

lemma aligned_real:
  assumes "e \<le> e1"
  shows "real_of_int (w * 2 ^ nat (e1 - e)) = real_of_int w * 2 powi e1 * 2 powi (- e)"
proof -
  have "real_of_int (2 ^ nat (e1 - e)) = 2 powi (e1 - e)"
    using two_powi_nat[of "e1 - e"] assms by simp
  then show ?thesis by (simp add: powi_add[symmetric])
qed

lemma fcmp_Finite_real:
  "with_sign s1 m1 * 2 ^ nat (e1 - min e1 e2) \<le> with_sign s2 m2 * 2 ^ nat (e2 - min e1 e2)
     \<longleftrightarrow> fval (Finite s1 m1 e1) \<le> fval (Finite s2 m2 e2)"
proof -
  let ?e = "min e1 e2"
  have "with_sign s1 m1 * 2 ^ nat (e1 - ?e) \<le> with_sign s2 m2 * 2 ^ nat (e2 - ?e) \<longleftrightarrow>
      real_of_int (with_sign s1 m1 * 2 ^ nat (e1 - ?e)) \<le> real_of_int (with_sign s2 m2 * 2 ^ nat (e2 - ?e))"
    by linarith
  also have "\<dots> \<longleftrightarrow> fval (Finite s1 m1 e1) * 2 powi (- ?e) \<le> fval (Finite s2 m2 e2) * 2 powi (- ?e)"
    by (simp only: aligned_real[of ?e e1] aligned_real[of ?e e2] min.cobounded1 min.cobounded2 fval_Finite)
  also have "\<dots> \<longleftrightarrow> fval (Finite s1 m1 e1) \<le> fval (Finite s2 m2 e2)"
    by (rule mult_le_cancel_right_pos) (rule powi_pos)
  finally show ?thesis .
qed

lemma fle_Finite: "fle (Finite s1 m1 e1) (Finite s2 m2 e2) \<longleftrightarrow> fval (Finite s1 m1 e1) \<le> fval (Finite s2 m2 e2)"
  unfolding fle_def fcmp.simps Let_def by (rule fcmp_Finite_real)

lemma flt_Finite: "flt (Finite s1 m1 e1) (Finite s2 m2 e2) \<longleftrightarrow> fval (Finite s1 m1 e1) < fval (Finite s2 m2 e2)"
proof -
  have "flt (Finite s1 m1 e1) (Finite s2 m2 e2) \<longleftrightarrow> \<not> fle (Finite s2 m2 e2) (Finite s1 m1 e1)"
    unfolding flt_def fle_def fcmp.simps Let_def by (simp add: min.commute not_le)
  then show ?thesis unfolding fle_Finite by linarith
qed

lemma feq_Finite: "feq (Finite s1 m1 e1) (Finite s2 m2 e2) \<longleftrightarrow> fval (Finite s1 m1 e1) = fval (Finite s2 m2 e2)"
proof -
  have "feq (Finite s1 m1 e1) (Finite s2 m2 e2) \<longleftrightarrow>
     fle (Finite s1 m1 e1) (Finite s2 m2 e2) \<and> fle (Finite s2 m2 e2) (Finite s1 m1 e1)"
    unfolding feq_def fle_def fcmp.simps Let_def by (auto simp add: min.commute)
  then show ?thesis unfolding fle_Finite by linarith
qed

lemma round_ratio_cases:
  assumes "0 \<le> a" "0 < b"
  obtains "round_ratio s a b = Infinity s" "2 powi 1024 \<le> rmag a b"
  | m e where "round_ratio s a b = Finite s m e" "0 \<le> m"
      "real_of_int m * 2 powi e = rmag a b" "rmag a b < 2 powi 1024"
proof (cases "2 powi 1024 \<le> rmag a b")
  case True
  then show ?thesis using round_ratio_inf[OF assms True] that(1) by blast
next
  case False
  then have small: "rmag a b < 2 powi 1024" by simp
  show ?thesis using round_ratio_fin[OF assms small, of s] that(2) small by blast
qed

lemma fle_Finite_Infinity [simp]: "fle (Finite s m e) (Infinity t) \<longleftrightarrow> \<not> t"
  by (simp add: fle_def with_sign_def)

lemma fle_Infinity_Finite [simp]: "fle (Infinity t) (Finite s m e) \<longleftrightarrow> t"
  by (simp add: fle_def with_sign_def)

lemma fle_Infinity_Infinity [simp]: "fle (Infinity s) (Infinity t) \<longleftrightarrow> (s \<or> \<not> t)"
  by (auto simp add: fle_def with_sign_def)

lemma round_ratio_mono:
  assumes a1: "0 \<le> a1" and b1: "0 < b1" and a2: "0 \<le> a2" and b2: "0 < b2"
    and le: "sgn_real s1 (real_of_int a1 / real_of_int b1) \<le> sgn_real s2 (real_of_int a2 / real_of_int b2)"
  shows "fle (round_ratio s1 a1 b1) (round_ratio s2 a2 b2)"
proof -
  let ?x1 = "real_of_int a1 / real_of_int b1" and ?x2 = "real_of_int a2 / real_of_int b2"
  have x1: "0 \<le> ?x1" and x2: "0 \<le> ?x2" using a1 b1 a2 b2 by simp_all
  have n1: "0 \<le> rmag a1 b1" and n2: "0 \<le> rmag a2 b2"
    using rmag_nonneg a1 b1 a2 b2 by simp_all
  have rel: "sgn_real s1 (rmag a1 b1) \<le> sgn_real s2 (rmag a2 b2)"
  proof (cases s1; cases s2)
    assume s: "s1" "s2"
    then have "?x2 \<le> ?x1" using le by (simp add: sgn_real_def)
    then have "rmag a2 b2 \<le> rmag a1 b1" by (rule rmag_mono[OF a2 b2 a1 b1])
    then show ?thesis using s by (simp add: sgn_real_def)
  next
    assume s: "s1" "\<not> s2"
    then show ?thesis using n1 n2 by (simp add: sgn_real_def)
  next
    assume s: "\<not> s1" "s2"
    then have "?x1 \<le> - ?x2" using le by (simp add: sgn_real_def)
    then have "?x1 = 0" "?x2 = 0" using x1 x2 by linarith+
    then have "a1 = 0" "a2 = 0" using b1 b2 by simp_all
    then show ?thesis using b1 b2 by (simp add: rmag_zero sgn_real_def)
  next
    assume s: "\<not> s1" "\<not> s2"
    then have "?x1 \<le> ?x2" using le by (simp add: sgn_real_def)
    then have "rmag a1 b1 \<le> rmag a2 b2" by (rule rmag_mono[OF a1 b1 a2 b2])
    then show ?thesis using s by (simp add: sgn_real_def)
  qed
  show ?thesis
  proof (rule round_ratio_cases[OF a1 b1, of s1]; rule round_ratio_cases[OF a2 b2, of s2])
    assume "round_ratio s1 a1 b1 = Infinity s1" "2 powi 1024 \<le> rmag a1 b1"
      "round_ratio s2 a2 b2 = Infinity s2" "2 powi 1024 \<le> rmag a2 b2"
    then show ?thesis using rel powi_pos[of 1024] by (auto simp: sgn_real_def split: if_splits)
  next
    fix m e
    assume "round_ratio s1 a1 b1 = Infinity s1" "2 powi 1024 \<le> rmag a1 b1"
      "round_ratio s2 a2 b2 = Finite s2 m e" "0 \<le> m"
      "real_of_int m * 2 powi e = rmag a2 b2" "rmag a2 b2 < 2 powi 1024"
    then show ?thesis using rel n2 powi_pos[of 1024] by (auto simp: sgn_real_def split: if_splits)
  next
    fix m e
    assume "round_ratio s1 a1 b1 = Finite s1 m e" "0 \<le> m"
      "real_of_int m * 2 powi e = rmag a1 b1" "rmag a1 b1 < 2 powi 1024"
      "round_ratio s2 a2 b2 = Infinity s2" "2 powi 1024 \<le> rmag a2 b2"
    then show ?thesis using rel n1 powi_pos[of 1024] by (auto simp: sgn_real_def split: if_splits)
  next
    fix m e m' e'
    assume "round_ratio s1 a1 b1 = Finite s1 m e" "0 \<le> m"
      "real_of_int m * 2 powi e = rmag a1 b1" "rmag a1 b1 < 2 powi 1024"
      "round_ratio s2 a2 b2 = Finite s2 m' e'" "0 \<le> m'"
      "real_of_int m' * 2 powi e' = rmag a2 b2" "rmag a2 b2 < 2 powi 1024"
    then show ?thesis using rel
      by (simp add: fle_Finite with_sign_real sgn_real_def split: if_splits)
  qed
qed

lemma finite_floatE:
  assumes "finite_float x"
  obtains s m e where "x = Finite s m e" "0 \<le> m"
  using assms by (cases x) simp_all

lemma round_scaled_ratio:
  "real_of_int (a * 2 ^ nat e) / real_of_int (2 ^ nat (- e)) = real_of_int a * 2 powi e"
  using scaled_ratio[of a "- e" 1] by simp

lemma fle_zero_left: "fle (Finite s 0 e) y \<longleftrightarrow> fle (Finite False 0 0) y"
  by (cases y) (simp_all add: fle_Finite with_sign_real, simp_all add: fle_def)

lemma fle_zero_right: "fle y (Finite s 0 e) \<longleftrightarrow> fle y (Finite False 0 0)"
  by (cases y) (simp_all add: fle_Finite with_sign_real, simp_all add: fle_def)

lemma round_ratio_zero [simp]: "round_ratio s 0 b = Finite s 0 0"
  by (simp add: round_ratio_def)

lemma round_int_mono:
  assumes "real_of_int a1 * 2 powi e1 \<le> real_of_int a2 * 2 powi e2"
  shows "fle (round_int a1 e1) (round_int a2 e2)"
  unfolding round_int_def round_scaled_def
proof (rule round_ratio_mono)
  show "0 \<le> \<bar>a1\<bar> * 2 ^ nat e1" "0 \<le> \<bar>a2\<bar> * 2 ^ nat e2" by simp_all
  show "(0::int) < 2 ^ nat (- e1)" "(0::int) < 2 ^ nat (- e2)" by simp_all
  have "sgn_real (a < 0) (real_of_int (\<bar>a\<bar> * 2 ^ nat e) / real_of_int (2 ^ nat (- e)))
      = real_of_int a * 2 powi e" for a e
    unfolding round_scaled_ratio by (simp add: sgn_real_def)
  then show "sgn_real (a1 < 0) (real_of_int (\<bar>a1\<bar> * 2 ^ nat e1) / real_of_int (2 ^ nat (- e1)))
      \<le> sgn_real (a2 < 0) (real_of_int (\<bar>a2\<bar> * 2 ^ nat e2) / real_of_int (2 ^ nat (- e2)))"
    using assms by simp
qed

lemma fadd_Finite:
  "fadd (Finite s1 m1 e1) (Finite s2 m2 e2) =
     (let e = min e1 e2;
          a = with_sign s1 m1 * 2 ^ nat (e1 - e) + with_sign s2 m2 * 2 ^ nat (e2 - e)
      in if a = 0 then Finite (s1 \<and> s2) 0 0 else round_int a e)"
  by (simp add: round_int_def Let_def)

lemma fadd_exact:
  "real_of_int (with_sign s1 m1 * 2 ^ nat (e1 - min e1 e2) + with_sign s2 m2 * 2 ^ nat (e2 - min e1 e2))
     * 2 powi (min e1 e2) = fval (Finite s1 m1 e1) + fval (Finite s2 m2 e2)"
proof -
  let ?e = "min e1 e2"
  have "real_of_int (with_sign s1 m1 * 2 ^ nat (e1 - ?e) + with_sign s2 m2 * 2 ^ nat (e2 - ?e))
      = (fval (Finite s1 m1 e1) + fval (Finite s2 m2 e2)) * 2 powi (- ?e)"
    by (simp only: of_int_add aligned_real[of ?e e1] aligned_real[of ?e e2]
        min.cobounded1 min.cobounded2 fval_Finite distrib_right)
  then show ?thesis by (simp add: powi_add[symmetric])
qed

lemma fle_fadd_left:
  "fle (fadd (Finite s1 m1 e1) (Finite s2 m2 e2)) w \<longleftrightarrow>
   fle (round_int (with_sign s1 m1 * 2 ^ nat (e1 - min e1 e2) + with_sign s2 m2 * 2 ^ nat (e2 - min e1 e2)) (min e1 e2)) w"
  unfolding fadd_Finite Let_def
  by (auto simp: round_int_def round_scaled_def fle_zero_left[of "s1 \<and> s2"])

lemma fle_fadd_right:
  "fle w (fadd (Finite s1 m1 e1) (Finite s2 m2 e2)) \<longleftrightarrow>
   fle w (round_int (with_sign s1 m1 * 2 ^ nat (e1 - min e1 e2) + with_sign s2 m2 * 2 ^ nat (e2 - min e1 e2)) (min e1 e2))"
  unfolding fadd_Finite Let_def
  by (auto simp: round_int_def round_scaled_def fle_zero_right[of _ "s1 \<and> s2"])

lemma fadd_mono:
  assumes "finite_float x" "finite_float y" "finite_float z" "fval x \<le> fval y"
  shows "fle (fadd x z) (fadd y z)"
proof -
  obtain s1 m1 e1 where x: "x = Finite s1 m1 e1" using assms(1) by (rule finite_floatE)
  obtain s2 m2 e2 where y: "y = Finite s2 m2 e2" using assms(2) by (rule finite_floatE)
  obtain s3 m3 e3 where z: "z = Finite s3 m3 e3" using assms(3) by (rule finite_floatE)
  show ?thesis
    unfolding x y z fle_fadd_left fle_fadd_right
    by (rule round_int_mono) (use assms(4) in \<open>simp only: fadd_exact x y z\<close>)
qed

lemma fle_fval: "finite_float x \<Longrightarrow> finite_float y \<Longrightarrow> fle x y \<longleftrightarrow> fval x \<le> fval y"
  by (elim finite_floatE) (simp only: fle_Finite)

lemma flt_fval: "finite_float x \<Longrightarrow> finite_float y \<Longrightarrow> flt x y \<longleftrightarrow> fval x < fval y"
  by (elim finite_floatE) (simp only: flt_Finite)

lemma squeeze_finite:
  assumes "float_ok r" "finite_float lo" "finite_float hi" "fle lo r" "fle r hi"
  shows "finite_float r \<and> fval lo \<le> fval r \<and> fval r \<le> fval hi"
proof (cases r)
  case (Finite s m e)
  then have "finite_float r" using assms(1) by simp
  then show ?thesis using assms fle_fval by blast
next
  case (Infinity s)
  then show ?thesis using assms by (auto elim!: finite_floatE)
next
  case NaN
  then show ?thesis using assms by simp
qed

lemma round_ratio_ok: "0 \<le> a \<Longrightarrow> 0 < b \<Longrightarrow> float_ok (round_ratio s a b)"
  by (rule round_ratio_cases[of a b s]) simp_all

lemma round_int_ok: "float_ok (round_int a e)"
  unfolding round_int_def round_scaled_def by (rule round_ratio_ok) simp_all

lemma fadd_ok: "finite_float x \<Longrightarrow> finite_float y \<Longrightarrow> float_ok (fadd x y)"
  by (elim finite_floatE) (simp add: fadd_Finite Let_def round_int_ok del: fadd.simps)

lemma fneg_finite [simp]: "finite_float (fneg x) = finite_float x"
  by (cases x) simp_all

lemma fval_fneg [simp]: "fval (fneg x) = - fval x"
  by (cases x) (simp_all add: fval_def with_sign_def)

lemma fsub_mono:
  "finite_float x \<Longrightarrow> finite_float y \<Longrightarrow> finite_float z \<Longrightarrow> fval x \<le> fval y
    \<Longrightarrow> fle (fsub x z) (fsub y z)"
  unfolding fsub_def by (rule fadd_mono) simp_all

lemma fsub_ok: "finite_float x \<Longrightarrow> finite_float y \<Longrightarrow> float_ok (fsub x y)"
  unfolding fsub_def by (rule fadd_ok) simp_all

lemma fmul_Finite:
  "fmul (Finite s1 m1 e1) (Finite s2 m2 e2) =
     round_ratio (s1 \<noteq> s2) (m1 * m2 * 2 ^ nat (e1 + e2)) (2 ^ nat (- (e1 + e2)))"
  by (simp add: round_scaled_def)

lemma fmul_ok: "finite_float x \<Longrightarrow> finite_float y \<Longrightarrow> float_ok (fmul x y)"
  by (elim finite_floatE) (simp add: fmul_Finite round_ratio_ok del: fmul.simps)

lemma fmul_exact:
  "sgn_real (s1 \<noteq> s2) (real_of_int (m1 * m2 * 2 ^ nat (e1 + e2)) / real_of_int (2 ^ nat (- (e1 + e2))))
     = fval (Finite s1 m1 e1) * fval (Finite s2 m2 e2)"
  unfolding round_scaled_ratio
  by (simp add: sgn_real_def with_sign_real powi_add)

lemma fmul_mono:
  assumes "finite_float x" "finite_float y" "finite_float z" "0 \<le> fval z" "fval x \<le> fval y"
  shows "fle (fmul x z) (fmul y z)"
proof -
  obtain s1 m1 e1 where x: "x = Finite s1 m1 e1" "0 \<le> m1" using assms(1) by (rule finite_floatE)
  obtain s2 m2 e2 where y: "y = Finite s2 m2 e2" "0 \<le> m2" using assms(2) by (rule finite_floatE)
  obtain s3 m3 e3 where z: "z = Finite s3 m3 e3" "0 \<le> m3" using assms(3) by (rule finite_floatE)
  have "fval x * fval z \<le> fval y * fval z"
    by (rule mult_right_mono) (use assms in simp_all)
  then show ?thesis
    unfolding x y z fmul_Finite
    by (intro round_ratio_mono) (use x y z in \<open>simp_all only: fmul_exact, simp_all\<close>)
qed

lemma fdiv_Finite:
  "m2 \<noteq> 0 \<Longrightarrow> fdiv (Finite s1 m1 e1) (Finite s2 m2 e2) =
     Inr (round_ratio (s1 \<noteq> s2) (m1 * 2 ^ nat (- (e2 - e1))) (m2 * 2 ^ nat (e2 - e1)))"
  by simp

lemma fdiv_exact:
  assumes "0 < m2"
  shows "sgn_real (s1 \<noteq> s2) (real_of_int (m1 * 2 ^ nat (- (e2 - e1))) / real_of_int (m2 * 2 ^ nat (e2 - e1)))
     = fval (Finite s1 m1 e1) / fval (Finite s2 m2 e2)"
  unfolding scaled_ratio using assms
  by (simp add: sgn_real_def with_sign_real power_int_diff field_simps)

lemma fdiv_mono:
  assumes "finite_float x" "finite_float y" "finite_float z" "0 < fval z" "fval x \<le> fval y"
  shows "\<exists>r1 r2. fdiv x z = Inr r1 \<and> fdiv y z = Inr r2 \<and> float_ok r1 \<and> float_ok r2 \<and> fle r1 r2"
proof -
  obtain s1 m1 e1 where x: "x = Finite s1 m1 e1" "0 \<le> m1" using assms(1) by (rule finite_floatE)
  obtain s2 m2 e2 where y: "y = Finite s2 m2 e2" "0 \<le> m2" using assms(2) by (rule finite_floatE)
  obtain s3 m3 e3 where z: "z = Finite s3 m3 e3" "0 \<le> m3" using assms(3) by (rule finite_floatE)
  have m3: "0 < m3" using assms(4) z by (cases "m3 = 0"; cases s3) (simp_all add: with_sign_def)
  then have m3': "m3 \<noteq> 0" by simp
  have "fval x / fval z \<le> fval y / fval z"
    by (rule divide_right_mono) (use assms in simp_all)
  then have "fle (round_ratio (s1 \<noteq> s3) (m1 * 2 ^ nat (- (e3 - e1))) (m3 * 2 ^ nat (e3 - e1)))
                 (round_ratio (s2 \<noteq> s3) (m2 * 2 ^ nat (- (e3 - e2))) (m3 * 2 ^ nat (e3 - e2)))"
    by (intro round_ratio_mono) (use x y z m3 in \<open>simp_all only: fdiv_exact[OF m3], simp_all\<close>)
  moreover have "float_ok (round_ratio (s1 \<noteq> s3) (m1 * 2 ^ nat (- (e3 - e1))) (m3 * 2 ^ nat (e3 - e1)))"
    "float_ok (round_ratio (s2 \<noteq> s3) (m2 * 2 ^ nat (- (e3 - e2))) (m3 * 2 ^ nat (e3 - e2)))"
    using x y m3 by (simp_all add: round_ratio_ok)
  ultimately show ?thesis unfolding x y z fdiv_Finite[OF m3'] by blast
qed

lemma int_to_float_Inr:
  assumes "int_to_float i = Inr x"
  shows "round_ratio (i < 0) \<bar>i\<bar> 1 = x" and "finite_float x"
proof -
  have ok: "float_ok (round_ratio (i < 0) \<bar>i\<bar> 1)" by (simp add: round_ratio_ok)
  show "round_ratio (i < 0) \<bar>i\<bar> 1 = x"
    using assms unfolding int_to_float_def by (simp split: pyfloat.splits)
  then show "finite_float x"
    using assms ok unfolding int_to_float_def by (cases x) simp_all
qed

lemma int_to_float_mono:
  assumes "i \<le> j" "int_to_float i = Inr x" "int_to_float j = Inr y"
  shows "finite_float x \<and> finite_float y \<and> fval x \<le> fval y"
proof -
  have "sgn_real (i < 0) (real_of_int \<bar>i\<bar> / real_of_int 1) = real_of_int i"
    "sgn_real (j < 0) (real_of_int \<bar>j\<bar> / real_of_int 1) = real_of_int j"
    by (simp_all add: sgn_real_def)
  then have "sgn_real (i < 0) (real_of_int \<bar>i\<bar> / real_of_int 1)
      \<le> sgn_real (j < 0) (real_of_int \<bar>j\<bar> / real_of_int 1)"
    using assms(1) by simp
  then have "fle (round_ratio (i < 0) \<bar>i\<bar> 1) (round_ratio (j < 0) \<bar>j\<bar> 1)"
    by (intro round_ratio_mono) simp_all
  then have "fle x y"
    using int_to_float_Inr(1)[OF assms(2)] int_to_float_Inr(1)[OF assms(3)] by simp
  then show ?thesis
    using int_to_float_Inr(2)[OF assms(2)] int_to_float_Inr(2)[OF assms(3)] fle_fval by blast
qed

lemma py_round_mono:
  assumes "finite_float x" "finite_float y" "fval x \<le> fval y"
  shows "\<exists>i j. py_round x = Inr i \<and> py_round y = Inr j \<and> i \<le> j"
proof -
  obtain s1 m1 e1 where x: "x = Finite s1 m1 e1" "0 \<le> m1" using assms(1) by (rule finite_floatE)
  obtain s2 m2 e2 where y: "y = Finite s2 m2 e2" "0 \<le> m2" using assms(2) by (rule finite_floatE)
  let ?r1 = "round_half_even (m1 * 2 ^ nat e1) (2 ^ nat (- e1))"
  let ?r2 = "round_half_even (m2 * 2 ^ nat e2) (2 ^ nat (- e2))"
  have q1: "real_of_int (m1 * 2 ^ nat e1) / real_of_int (2 ^ nat (- e1)) = real_of_int m1 * 2 powi e1"
    and q2: "real_of_int (m2 * 2 ^ nat e2) / real_of_int (2 ^ nat (- e2)) = real_of_int m2 * 2 powi e2"
    by (rule round_scaled_ratio)+
  have n1: "0 \<le> ?r1" by (rule rhe_ge) (use x in \<open>simp_all only: q1, simp_all\<close>)
  have n2: "0 \<le> ?r2" by (rule rhe_ge) (use y in \<open>simp_all only: q2, simp_all\<close>)
  have le: "sgn_real s1 (real_of_int m1 * 2 powi e1) \<le> sgn_real s2 (real_of_int m2 * 2 powi e2)"
    using assms(3) by (cases s1; cases s2) (simp_all add: x y with_sign_real sgn_real_def)
  have p1: "0 \<le> real_of_int m1 * 2 powi e1" and p2: "0 \<le> real_of_int m2 * 2 powi e2"
    using x y by simp_all
  have "with_sign s1 ?r1 \<le> with_sign s2 ?r2"
  proof (cases s1; cases s2)
    assume s: "s1" "s2"
    then have "real_of_int m2 * 2 powi e2 \<le> real_of_int m1 * 2 powi e1"
      using le by (simp add: sgn_real_def)
    then have "?r2 \<le> ?r1" by (intro rhe_mono) (simp_all only: q1 q2, simp_all)
    then show ?thesis using s by (simp add: with_sign_def)
  next
    assume s: "s1" "\<not> s2"
    then show ?thesis using n1 n2 by (simp add: with_sign_def)
  next
    assume s: "\<not> s1" "s2"
    then have "real_of_int m1 * 2 powi e1 \<le> - (real_of_int m2 * 2 powi e2)"
      using le by (simp add: sgn_real_def)
    then have "real_of_int m1 * 2 powi e1 = 0" "real_of_int m2 * 2 powi e2 = 0"
      using p1 p2 by linarith+
    then have "m1 = 0" "m2 = 0" by simp_all
    then show ?thesis using rhe_exact[of "2 ^ nat (- e1)" 0] rhe_exact[of "2 ^ nat (- e2)" 0]
      by (simp add: with_sign_def)
  next
    assume s: "\<not> s1" "\<not> s2"
    then have "real_of_int m1 * 2 powi e1 \<le> real_of_int m2 * 2 powi e2"
      using le by (simp add: sgn_real_def)
    then have "?r1 \<le> ?r2" by (intro rhe_mono) (simp_all only: q1 q2, simp_all)
    then show ?thesis using s by (simp add: with_sign_def)
  qed
  then show ?thesis by (simp add: x y)
qed

section \<open>The scaler between two positions or two values\<close>

lemma int_to_float_finite:
  "finite_float (round_ratio (i < 0) \<bar>i\<bar> 1) \<Longrightarrow> int_to_float i = Inr (round_ratio (i < 0) \<bar>i\<bar> 1)"
  unfolding int_to_float_def by (cases "round_ratio (i < 0) \<bar>i\<bar> 1") simp_all

lemma int_to_float_between:
  assumes "lo \<le> i" "i \<le> hi" "int_to_float lo = Inr a" "int_to_float hi = Inr b"
  shows "\<exists>x. int_to_float i = Inr x \<and> finite_float x \<and> fval a \<le> fval x \<and> fval x \<le> fval b"
proof -
  let ?r = "\<lambda>i::int. round_ratio (i < 0) \<bar>i\<bar> 1"
  have mono: "fle (?r i) (?r j)" if "i \<le> j" for i j :: int
  proof -
    have "sgn_real (i < 0) (real_of_int \<bar>i\<bar> / real_of_int 1) = real_of_int i"
      "sgn_real (j < 0) (real_of_int \<bar>j\<bar> / real_of_int 1) = real_of_int j"
      by (simp_all add: sgn_real_def)
    then have "sgn_real (i < 0) (real_of_int \<bar>i\<bar> / real_of_int 1)
        \<le> sgn_real (j < 0) (real_of_int \<bar>j\<bar> / real_of_int 1)"
      using that by simp
    then show ?thesis by (intro round_ratio_mono) simp_all
  qed
  have a: "?r lo = a" "finite_float a" using int_to_float_Inr[OF assms(3)] by simp_all
  have b: "?r hi = b" "finite_float b" using int_to_float_Inr[OF assms(4)] by simp_all
  have "float_ok (?r i)" by (simp add: round_ratio_ok)
  moreover have "fle a (?r i)" using mono[OF assms(1)] a by simp
  moreover have "fle (?r i) b" using mono[OF assms(2)] b by simp
  ultimately have "finite_float (?r i) \<and> fval a \<le> fval (?r i) \<and> fval (?r i) \<le> fval b"
    using a(2) b(2) by (intro squeeze_finite) simp_all
  then show ?thesis using int_to_float_finite[of i] by blast
qed

lemma fdiv_finite_dividend:
  assumes "float_ok u" "fdiv u z = Inr r" "finite_float r" "finite_float z"
  shows "finite_float u"
proof (cases u)
  case (Finite s m e)
  then show ?thesis using assms(1) by simp
next
  case (Infinity s)
  then show ?thesis using assms by (cases z) (auto split: if_splits)
next
  case NaN
  then show ?thesis using assms(1) by simp
qed

lemma fadd_finite_left:
  assumes "float_ok u" "finite_float (fadd u z)" "finite_float z"
  shows "finite_float u"
  using assms by (cases u; cases z) simp_all

lemma py_round_Inr_finite:
  assumes "float_ok u" "py_round u = Inr n"
  shows "finite_float u"
  using assms by (cases u) simp_all

lemma set_from_slider_value_Inr:
  assumes "set_from_slider_value p v = Inr q"
  obtains x where "int_to_float v = Inr x" "fdiv (fadd x (p_offset p)) (p_scale p) = Inr (p_value q)"
    "q = p\<lparr>p_value := p_value q\<rparr>"
  using assms unfolding set_from_slider_value_def
  by (auto split: sum.splits)

lemma set_from_slider_value_between:
  assumes off: "finite_float (p_offset p)" and sc: "finite_float (p_scale p)" "0 < fval (p_scale p)"
    and v: "lo \<le> v" "v \<le> hi"
    and l: "set_from_slider_value p lo = Inr pl" "finite_float (p_value pl)"
    and h: "set_from_slider_value p hi = Inr ph" "finite_float (p_value ph)"
  shows "\<exists>x. set_from_slider_value p v = Inr (p\<lparr>p_value := x\<rparr>) \<and> finite_float x \<and>
           fval (p_value pl) \<le> fval x \<and> fval x \<le> fval (p_value ph)"
proof -
  obtain a where a: "int_to_float lo = Inr a"
      "fdiv (fadd a (p_offset p)) (p_scale p) = Inr (p_value pl)"
    using l(1) by (rule set_from_slider_value_Inr)
  obtain b where b: "int_to_float hi = Inr b"
      "fdiv (fadd b (p_offset p)) (p_scale p) = Inr (p_value ph)"
    using h(1) by (rule set_from_slider_value_Inr)
  have fa: "finite_float a" and fb: "finite_float b"
    using int_to_float_Inr(2) a(1) b(1) by blast+
  obtain x where x: "int_to_float v = Inr x" "finite_float x" "fval a \<le> fval x" "fval x \<le> fval b"
    using int_to_float_between[OF v a(1) b(1)] by blast
  let ?sa = "fadd a (p_offset p)" and ?sx = "fadd x (p_offset p)" and ?sb = "fadd b (p_offset p)"
  have sa: "finite_float ?sa"
    by (rule fdiv_finite_dividend[OF fadd_ok[OF fa off] a(2) l(2) sc(1)])
  have sb: "finite_float ?sb"
    by (rule fdiv_finite_dividend[OF fadd_ok[OF fb off] b(2) h(2) sc(1)])
  have sx: "finite_float ?sx \<and> fval ?sa \<le> fval ?sx \<and> fval ?sx \<le> fval ?sb"
    by (rule squeeze_finite[OF fadd_ok[OF x(2) off] sa sb
          fadd_mono[OF fa x(2) off x(3)] fadd_mono[OF x(2) fb off x(4)]])
  obtain r1 r2 where lo: "fdiv ?sa (p_scale p) = Inr r1" "fdiv ?sx (p_scale p) = Inr r2"
      "float_ok r2" "fle r1 r2"
    using fdiv_mono[OF sa _ sc(1) sc(2), of ?sx] sx by blast
  obtain r3 r4 where hi: "fdiv ?sx (p_scale p) = Inr r3" "fdiv ?sb (p_scale p) = Inr r4" "fle r3 r4"
    using fdiv_mono[OF _ sb sc(1) sc(2), of ?sx] sx by blast
  have e: "r1 = p_value pl" "r3 = r2" "r4 = p_value ph"
    using lo hi a(2) b(2) by simp_all
  have "finite_float r2 \<and> fval (p_value pl) \<le> fval r2 \<and> fval r2 \<le> fval (p_value ph)"
    by (rule squeeze_finite[OF lo(3) l(2) h(2)]) (use lo(4) hi(3) e in simp_all)
  moreover have "set_from_slider_value p v = Inr (p\<lparr>p_value := r2\<rparr>)"
    by (simp add: set_from_slider_value_def x(1) lo(2))
  ultimately show ?thesis by blast
qed

lemma slider_value_update [simp]:
  "slider_value (p\<lparr>p_value := x\<rparr>) = py_round (fsub (fmul x (p_scale p)) (p_offset p))"
  by (simp add: slider_value_def)

lemma fsub_finite_left:
  assumes "float_ok u" "finite_float (fsub u z)" "finite_float z"
  shows "finite_float u"
  using assms unfolding fsub_def by (intro fadd_finite_left[of u "fneg z"]) simp_all

lemma slider_value_between:
  assumes off: "finite_float (p_offset p)" and sc: "finite_float (p_scale p)" "0 \<le> fval (p_scale p)"
    and fl: "finite_float lo" and fx: "finite_float x" and fh: "finite_float hi"
    and le: "fval lo \<le> fval x" "fval x \<le> fval hi"
    and a: "slider_value (p\<lparr>p_value := lo\<rparr>) = Inr a"
    and b: "slider_value (p\<lparr>p_value := hi\<rparr>) = Inr b"
  shows "\<exists>n. slider_value (p\<lparr>p_value := x\<rparr>) = Inr n \<and> a \<le> n \<and> n \<le> b"
proof -
  let ?m = "\<lambda>v. fmul v (p_scale p)"
  let ?d = "\<lambda>v. fsub (?m v) (p_offset p)"
  have ok: "float_ok (?m v)" if "finite_float v" for v by (rule fmul_ok[OF that sc(1)])
  have fin: "finite_float (?m v) \<and> finite_float (?d v)"
    if "finite_float v" "py_round (?d v) = Inr n" for v n
  proof -
    have 1: "float_ok (?d v)"
    proof (cases "?m v")
      case (Finite s m e)
      then have "finite_float (?m v)" using ok[OF that(1)] by simp
      then show ?thesis by (rule fsub_ok[OF _ off])
    next
      case (Infinity s)
      then show ?thesis using off by (cases "p_offset p") (simp_all add: fsub_def)
    next
      case NaN
      then show ?thesis using ok[OF that(1)] by simp
    qed
    then have 2: "finite_float (?d v)" using that(2) by (rule py_round_Inr_finite)
    have "finite_float (?m v)" by (rule fsub_finite_left[OF ok[OF that(1)] 2 off])
    then show ?thesis using 2 by simp
  qed
  have l: "finite_float (?m lo)" "finite_float (?d lo)" using fin[OF fl] a by simp_all
  have h: "finite_float (?m hi)" "finite_float (?d hi)" using fin[OF fh] b by simp_all
  have mx: "finite_float (?m x) \<and> fval (?m lo) \<le> fval (?m x) \<and> fval (?m x) \<le> fval (?m hi)"
    by (rule squeeze_finite[OF ok[OF fx] l(1) h(1)
          fmul_mono[OF fl fx sc le(1)] fmul_mono[OF fx fh sc le(2)]])
  then have m: "finite_float (?m x)" "fval (?m lo) \<le> fval (?m x)" "fval (?m x) \<le> fval (?m hi)"
    by simp_all
  have dx: "finite_float (?d x) \<and> fval (?d lo) \<le> fval (?d x) \<and> fval (?d x) \<le> fval (?d hi)"
    by (rule squeeze_finite[OF fsub_ok[OF m(1) off] l(2) h(2)
          fsub_mono[OF l(1) m(1) off m(2)] fsub_mono[OF m(1) h(1) off m(3)]])
  then have d: "finite_float (?d x)" "fval (?d lo) \<le> fval (?d x)" "fval (?d x) \<le> fval (?d hi)"
    by simp_all
  obtain i j where 1: "py_round (?d lo) = Inr i" "py_round (?d x) = Inr j" "i \<le> j"
    using py_round_mono[OF l(2) d(1) d(2)] by blast
  obtain j' k where 2: "py_round (?d x) = Inr j'" "py_round (?d hi) = Inr k" "j' \<le> k"
    using py_round_mono[OF d(1) h(2) d(3)] by blast
  show ?thesis using 1 2 a b by simp
qed

lemma run_ops_in_range:
  assumes off: "finite_float (p_offset p)" and sc: "finite_float (p_scale p)" "0 < fval (p_scale p)"
    and l: "set_from_slider_value p 0 = Inr (p\<lparr>p_value := lo\<rparr>)" "finite_float lo"
    and h: "set_from_slider_value p SLIDER_MAX = Inr (p\<lparr>p_value := hi\<rparr>)" "finite_float hi"
    and d: "finite_float (default_val rng)" "fval lo \<le> fval (default_val rng)"
           "fval (default_val rng) \<le> fval hi"
    and x: "finite_float x" "fval lo \<le> fval x" "fval x \<le> fval hi"
    and ops: "\<forall>op \<in> set ops. slider_position_ok op"
  shows "\<exists>y. run_ops rng (p\<lparr>p_value := x\<rparr>) ops = Inr (p\<lparr>p_value := y\<rparr>) \<and>
           finite_float y \<and> fval lo \<le> fval y \<and> fval y \<le> fval hi"
  using x ops
proof (induction ops arbitrary: x)
  case Nil
  then show ?case by auto
next
  case (Cons op ops)
  have step: "\<exists>y. apply_op rng (p\<lparr>p_value := x\<rparr>) op = Inr (p\<lparr>p_value := y\<rparr>) \<and>
           finite_float y \<and> fval lo \<le> fval y \<and> fval y \<le> fval hi"
  proof (cases op)
    case (Set_from_slider v)
    then have v: "0 \<le> v" "v \<le> SLIDER_MAX" using Cons.prems(4) by simp_all
    have same: "set_from_slider_value (p\<lparr>p_value := x\<rparr>) v =
        (case set_from_slider_value p v of Inl e \<Rightarrow> Inl e | Inr q \<Rightarrow> Inr q)"
      by (simp add: set_from_slider_value_def split: sum.splits)
    obtain y where "set_from_slider_value p v = Inr (p\<lparr>p_value := y\<rparr>)" "finite_float y"
        "fval lo \<le> fval y" "fval y \<le> fval hi"
      using set_from_slider_value_between[OF off sc v l(1) _ h(1)] l(2) h(2) by auto
    then show ?thesis using Set_from_slider same by auto
  next
    case Reset
    then show ?thesis using d by (auto simp add: reset_value_def)
  qed
  then obtain y where y: "apply_op rng (p\<lparr>p_value := x\<rparr>) op = Inr (p\<lparr>p_value := y\<rparr>)"
      "finite_float y" "fval lo \<le> fval y" "fval y \<le> fval hi" by blast
  have "\<exists>z. run_ops rng (p\<lparr>p_value := y\<rparr>) ops = Inr (p\<lparr>p_value := z\<rparr>) \<and>
           finite_float z \<and> fval lo \<le> fval z \<and> fval z \<le> fval hi"
    by (rule Cons.IH[OF y(2,3,4)]) (use Cons.prems(4) in simp)
  then show ?case using y(1) by (simp add: then_do_def)
qed

section \<open>The configured ranges\<close>

lemma checked_RANGES: "list_all (\<lambda>(var, rng). checked_range var rng) RANGES"
  by code_simp

lemma is_finite_double_finite: "is_finite_double x \<Longrightarrow> finite_float x"
  by (cases x) (auto split: if_splits)

lemma configured_rangeE:
  assumes "(var, rng) \<in> set RANGES"
  obtains p where "Parameter_init var rng = Inr p" "p_value p = default_val rng"
    "finite_float (p_offset p)" "finite_float (p_scale p)" "0 < fval (p_scale p)"
    "finite_float (min_val rng)" "finite_float (max_val rng)" "finite_float (default_val rng)"
    "fval (min_val rng) \<le> fval (default_val rng)" "fval (default_val rng) \<le> fval (max_val rng)"
    "set_from_slider_value p 0 = Inr (p\<lparr>p_value := min_val rng\<rparr>)"
    "set_from_slider_value p SLIDER_MAX = Inr (p\<lparr>p_value := max_val rng\<rparr>)"
    "slider_value (p\<lparr>p_value := min_val rng\<rparr>) = Inr 0"
    "slider_value (p\<lparr>p_value := max_val rng\<rparr>) = Inr SLIDER_MAX"
proof -
  have c: "checked_range var rng"
    using checked_RANGES assms by (auto simp: list_all_iff)
  then obtain p where p: "Parameter_init var rng = Inr p"
    by (cases "Parameter_init var rng") (simp_all add: checked_range_def)
  note f = c[unfolded checked_range_def p sum.case]
  have fin: "finite_float (min_val rng)" "finite_float (max_val rng)" "finite_float (default_val rng)"
    using f by (simp_all add: is_finite_double_finite)
  have sc: "0 < fval (p_scale p)"
  proof -
    have "flt (Finite False 0 0) (p_scale p)" "finite_float (p_scale p)" using f by simp_all
    then have "fval (Finite False 0 0) < fval (p_scale p)" by (subst (asm) flt_fval) simp_all
    then show ?thesis by (simp add: with_sign_def)
  qed
  have le: "fval (min_val rng) \<le> fval (default_val rng)" "fval (default_val rng) \<le> fval (max_val rng)"
    using f fin fle_fval by blast+
  show ?thesis
    by (rule that[OF p _ _ _ sc fin le]) (use f in simp_all)
qed

section \<open>The worked examples\<close>

text \<open>
  C9.  For the parameter with min = 0.0, max = 2.0, default = 1.0 and \<open>SLIDER_MAX\<close> = 200:
  \<open>set_from_slider_value(100)\<close> yields the value 1.0 and the label "1.00",
  \<open>set_from_slider_value(0)\<close> yields 0.0 and "0.00", \<open>set_from_slider_value(200)\<close>
  yields 2.0 and "2.00".  For the parameter with min = -0.5, max = 0.5, default = 0.0,
  \<open>slider_value()\<close> at the value 0.0 returns 100.
\<close>

theorem worked_examples:
  "SLIDER_MAX = 200 \<and>
   then_do
     (Parameter_init ''contrast''
        \<lparr>min_val = float_literal 0 10, max_val = float_literal 20 10,
         default_val = float_literal 10 10, format_val = 2\<rparr>)
     (\<lambda>p. Inr (map (\<lambda>v. then_do (set_from_slider_value p v) (\<lambda>q. Inr (p_value q, label q)))
                  [100, 0, 200]))
     = Inr [Inr (float_literal 10 10, ''1.00''),
            Inr (float_literal 0 10, ''0.00''),
            Inr (float_literal 20 10, ''2.00'')] \<and>
   then_do
     (Parameter_init ''brightness''
        \<lparr>min_val = fneg (float_literal 5 10), max_val = float_literal 5 10,
         default_val = float_literal 0 10, format_val = 2\<rparr>)
     (\<lambda>p. slider_value (p\<lparr>p_value := float_literal 0 10\<rparr>))
     = Inr 100"
  by code_simp

lemma gamma_parameter:
  "Parameter_init ''gamma''
     \<lparr>min_val = float_literal 1 10, max_val = float_literal 50 10,
      default_val = float_literal 10 10, format_val = 2\<rparr>
   = Inr \<lparr>p_var = ''gamma'', p_value = Finite False 4503599627370496 (- 52),
          p_range = Finite False 5516909543528858 (- 50),
          p_scale = Finite False 5744387279809306 (- 47),
          p_offset = Finite False 4595509823847445 (- 50), p_format = 2\<rparr>"
  by code_simp

lemma huge_position_overflows:
  "then_do (Parameter_init ''contrast''
       \<lparr>min_val = float_literal 0 10, max_val = float_literal 20 10,
        default_val = float_literal 10 10, format_val = 2\<rparr>)
     (\<lambda>p. set_from_slider_value p (2 ^ 1024)) = Inl OverflowError"
  by code_simp

section \<open>The end points of the slider\<close>

text \<open>
  C4 (as amended).  For each of the four ranges of \<open>RANGES\<close>,
  \<open>set_from_slider_value(0)\<close> sets the value to exactly min and
  \<open>set_from_slider_value(SLIDER_MAX)\<close> sets it to exactly max.  (For other ranges with
  min < max the end points can be missed by a rounding error, as the counterexample shows.)
\<close>

theorem configured_endpoints:
  "(var, rng) \<in> set RANGES \<Longrightarrow>
     then_do (Parameter_init var rng)
       (\<lambda>p. then_do (set_from_slider_value p 0) (\<lambda>q. Inr (p_value q))) = Inr (min_val rng) \<and>
     then_do (Parameter_init var rng)
       (\<lambda>p. then_do (set_from_slider_value p SLIDER_MAX) (\<lambda>q. Inr (p_value q))) = Inr (max_val rng)"
  by (erule configured_rangeE) (simp add: then_do_def)

theorem configured_endpoints_witness:
  "(''gamma'', \<lparr>min_val = float_literal 1 10, max_val = float_literal 50 10,
        default_val = float_literal 10 10, format_val = 2\<rparr>) \<in> set RANGES \<and>
   then_do (Parameter_init ''gamma'' \<lparr>min_val = float_literal 1 10, max_val = float_literal 50 10,
        default_val = float_literal 10 10, format_val = 2\<rparr>)
       (\<lambda>p. then_do (set_from_slider_value p 0) (\<lambda>q. Inr (p_value q))) = Inr (float_literal 1 10) \<and>
   then_do (Parameter_init ''gamma'' \<lparr>min_val = float_literal 1 10, max_val = float_literal 50 10,
        default_val = float_literal 10 10, format_val = 2\<rparr>)
       (\<lambda>p. then_do (set_from_slider_value p SLIDER_MAX) (\<lambda>q. Inr (p_value q))) = Inr (float_literal 50 10)"
  using configured_endpoints[of "''gamma''" "\<lparr>min_val = float_literal 1 10, max_val = float_literal 50 10,
        default_val = float_literal 10 10, format_val = 2\<rparr>"]
  by (simp add: RANGES_def)

text \<open>
  The claim as stated fails for the range min = -1.0, max = 2.0 (default 0.0): position
  \<open>SLIDER_MAX\<close> gives 1.9999999999999996, the double below 2.0.
\<close>

theorem endpoints_counterexample:
  "flt (fneg (float_literal 10 10)) (float_literal 20 10) \<and>
   then_do (Parameter_init ''x''
       \<lparr>min_val = fneg (float_literal 10 10), max_val = float_literal 20 10,
        default_val = float_literal 0 10, format_val = 2\<rparr>)
     (\<lambda>p. then_do (set_from_slider_value p SLIDER_MAX) (\<lambda>q. Inr (p_value q)))
     = Inr (Finite False 9007199254740990 (- 52)) \<and>
   \<not> feq (Finite False 9007199254740990 (- 52)) (float_literal 20 10)"
  by code_simp

section \<open>The value stays in its range\<close>

text \<open>
  C2 (as amended).  For each of the four ranges of \<open>RANGES\<close>: construction sets the value
  to the default, and after any sequence of \<open>set_from_slider_value\<close> calls with positions
  in [0, \<open>SLIDER_MAX\<close>] and of resets, no call raises and the value lies in [min, max].
\<close>

theorem configured_value_in_range:
  assumes "(var, rng) \<in> set RANGES" and "\<forall>op \<in> set ops. slider_position_ok op"
  shows "\<exists>p0 p. Parameter_init var rng = Inr p0 \<and> p_value p0 = default_val rng \<and>
           run_ops rng p0 ops = Inr p \<and>
           fle (min_val rng) (p_value p) \<and> fle (p_value p) (max_val rng)"
  using assms(1)
proof (rule configured_rangeE)
  fix p0
  assume p0: "Parameter_init var rng = Inr p0" "p_value p0 = default_val rng"
    and fin: "finite_float (p_offset p0)" "finite_float (p_scale p0)" "0 < fval (p_scale p0)"
      "finite_float (min_val rng)" "finite_float (max_val rng)" "finite_float (default_val rng)"
    and le: "fval (min_val rng) \<le> fval (default_val rng)" "fval (default_val rng) \<le> fval (max_val rng)"
    and ends: "set_from_slider_value p0 0 = Inr (p0\<lparr>p_value := min_val rng\<rparr>)"
      "set_from_slider_value p0 SLIDER_MAX = Inr (p0\<lparr>p_value := max_val rng\<rparr>)"
  have "\<exists>y. run_ops rng (p0\<lparr>p_value := default_val rng\<rparr>) ops = Inr (p0\<lparr>p_value := y\<rparr>) \<and>
      finite_float y \<and> fval (min_val rng) \<le> fval y \<and> fval y \<le> fval (max_val rng)"
    by (rule run_ops_in_range[OF fin(1,2,3) ends(1) fin(4) ends(2) fin(5) fin(6) le fin(6) le assms(2)])
  moreover have "p0\<lparr>p_value := default_val rng\<rparr> = p0" using p0(2) by simp
  ultimately obtain y where y: "run_ops rng p0 ops = Inr (p0\<lparr>p_value := y\<rparr>)"
    "finite_float y" "fval (min_val rng) \<le> fval y" "fval y \<le> fval (max_val rng)"
    by auto
  have "fle (min_val rng) y" "fle y (max_val rng)"
    using y fin fle_fval by blast+
  then show ?thesis using p0 y(1) by simp
qed

theorem configured_value_in_range_witness:
  "(''gamma'', \<lparr>min_val = float_literal 1 10, max_val = float_literal 50 10,
        default_val = float_literal 10 10, format_val = 2\<rparr>) \<in> set RANGES \<and>
   slider_position_ok (Set_from_slider 37) \<and> slider_position_ok Reset \<and>
   slider_position_ok (Set_from_slider 200) \<and>
   (\<exists>p0 p. Parameter_init ''gamma'' \<lparr>min_val = float_literal 1 10, max_val = float_literal 50 10,
        default_val = float_literal 10 10, format_val = 2\<rparr> = Inr p0 \<and>
      p_value p0 = float_literal 10 10 \<and>
      run_ops \<lparr>min_val = float_literal 1 10, max_val = float_literal 50 10,
        default_val = float_literal 10 10, format_val = 2\<rparr> p0
          [Set_from_slider 37, Reset, Set_from_slider 200] = Inr p \<and>
      fle (float_literal 1 10) (p_value p) \<and> fle (p_value p) (float_literal 50 10))"
  using configured_value_in_range[of "''gamma''" "\<lparr>min_val = float_literal 1 10, max_val = float_literal 50 10,
        default_val = float_literal 10 10, format_val = 2\<rparr>" "[Set_from_slider 37, Reset, Set_from_slider 200]"]
  by (simp add: RANGES_def SLIDER_MAX_def)

text \<open>
  The claim as stated fails for the range min = 2.0, max = 11.0 (default 2.0): position
  \<open>SLIDER_MAX\<close> gives 11.000000000000002, above max.
\<close>

theorem value_in_range_counterexample:
  "flt (float_literal 20 10) (float_literal 110 10) \<and>
   fle (float_literal 20 10) (float_literal 20 10) \<and>
   slider_position_ok (Set_from_slider 200) \<and>
   then_do (Parameter_init ''x''
       \<lparr>min_val = float_literal 20 10, max_val = float_literal 110 10,
        default_val = float_literal 20 10, format_val = 2\<rparr>)
     (\<lambda>p. then_do
        (run_ops \<lparr>min_val = float_literal 20 10, max_val = float_literal 110 10,
           default_val = float_literal 20 10, format_val = 2\<rparr> p [Set_from_slider 200])
        (\<lambda>q. Inr (p_value q)))
     = Inr (Finite False 6192449487634433 (- 49)) \<and>
   \<not> fle (Finite False 6192449487634433 (- 49)) (float_literal 110 10)"
  by code_simp

section \<open>The slider position of a value in range\<close>

text \<open>
  The positions just outside the slider come back unchanged for each range of \<open>RANGES\<close>.
\<close>

lemma unclamped_RANGES:
  "list_all (\<lambda>(var, rng).
      then_do (Parameter_init var rng) (\<lambda>p.
        then_do (set_from_slider_value p (SLIDER_MAX + 1)) slider_value) = Inr (SLIDER_MAX + 1) \<and>
      then_do (Parameter_init var rng) (\<lambda>p.
        then_do (set_from_slider_value p (- 1)) slider_value) = Inr (- 1)) RANGES"
  by code_simp

text \<open>
  C6 (as amended).  For every parameter \<open>slider_value()\<close> returns
  \<open>round(value * scale - offset)\<close>, and nothing clamps the result: for each of the four
  ranges of \<open>RANGES\<close> the value set from position \<open>SLIDER_MAX + 1\<close> gives
  \<open>SLIDER_MAX + 1\<close> and the value set from position -1 gives -1.  For each of these
  ranges, whenever the value is a double in [min, max] the call returns an integer in
  [0, \<open>SLIDER_MAX\<close>].
\<close>

theorem configured_slider_value_in_range:
  assumes "(var, rng) \<in> set RANGES" and "Parameter_init var rng = Inr p"
    and "is_finite_double x" and "fle (min_val rng) x" and "fle x (max_val rng)"
  shows "(\<forall>q. slider_value q = py_round (fsub (fmul (p_value q) (p_scale q)) (p_offset q))) \<and>
         (\<exists>n. slider_value (p\<lparr>p_value := x\<rparr>) = Inr n \<and> 0 \<le> n \<and> n \<le> SLIDER_MAX) \<and>
         then_do (set_from_slider_value p (SLIDER_MAX + 1)) slider_value = Inr (SLIDER_MAX + 1) \<and>
         then_do (set_from_slider_value p (- 1)) slider_value = Inr (- 1)"
  using assms(1)
proof (rule configured_rangeE)
  fix p0
  assume p0: "Parameter_init var rng = Inr p0"
    and fin: "finite_float (p_offset p0)" "finite_float (p_scale p0)" "0 < fval (p_scale p0)"
      "finite_float (min_val rng)" "finite_float (max_val rng)"
    and ends: "slider_value (p0\<lparr>p_value := min_val rng\<rparr>) = Inr 0"
      "slider_value (p0\<lparr>p_value := max_val rng\<rparr>) = Inr SLIDER_MAX"
  have p: "p0 = p" using p0 assms(2) by simp
  have x: "finite_float x" using assms(3) by (rule is_finite_double_finite)
  have le: "fval (min_val rng) \<le> fval x" "fval x \<le> fval (max_val rng)"
    using assms(4,5) x fin fle_fval by blast+
  have sc: "0 \<le> fval (p_scale p0)" using fin(3) by simp
  have 1: "\<exists>n. slider_value (p\<lparr>p_value := x\<rparr>) = Inr n \<and> 0 \<le> n \<and> n \<le> SLIDER_MAX"
    unfolding p[symmetric] by (rule slider_value_between[OF fin(1,2) sc fin(4) x fin(5) le ends])
  have 2: "\<forall>q. slider_value q = py_round (fsub (fmul (p_value q) (p_scale q)) (p_offset q))"
    by (simp add: slider_value_def)
  have "then_do (Parameter_init var rng) (\<lambda>p.
        then_do (set_from_slider_value p (SLIDER_MAX + 1)) slider_value) = Inr (SLIDER_MAX + 1) \<and>
      then_do (Parameter_init var rng) (\<lambda>p.
        then_do (set_from_slider_value p (- 1)) slider_value) = Inr (- 1)"
    using unclamped_RANGES assms(1) by (auto simp: list_all_iff)
  then have 3: "then_do (set_from_slider_value p (SLIDER_MAX + 1)) slider_value = Inr (SLIDER_MAX + 1)"
      "then_do (set_from_slider_value p (- 1)) slider_value = Inr (- 1)"
    unfolding assms(2) by (simp_all add: then_do_def)
  show ?thesis by (intro conjI 1 2 3)
qed

theorem configured_slider_value_in_range_witness:
  "(''gamma'', \<lparr>min_val = float_literal 1 10, max_val = float_literal 50 10,
        default_val = float_literal 10 10, format_val = 2\<rparr>) \<in> set RANGES \<and>
   Parameter_init ''gamma''
     \<lparr>min_val = float_literal 1 10, max_val = float_literal 50 10,
      default_val = float_literal 10 10, format_val = 2\<rparr>
   = Inr \<lparr>p_var = ''gamma'', p_value = Finite False 4503599627370496 (- 52),
          p_range = Finite False 5516909543528858 (- 50),
          p_scale = Finite False 5744387279809306 (- 47),
          p_offset = Finite False 4595509823847445 (- 50), p_format = 2\<rparr> \<and>
   is_finite_double (float_literal 25 10) \<and>
   fle (float_literal 1 10) (float_literal 25 10) \<and>
   fle (float_literal 25 10) (float_literal 50 10) \<and>
   (\<exists>n. slider_value \<lparr>p_var = ''gamma'', p_value = float_literal 25 10,
          p_range = Finite False 5516909543528858 (- 50),
          p_scale = Finite False 5744387279809306 (- 47),
          p_offset = Finite False 4595509823847445 (- 50), p_format = 2\<rparr> = Inr n \<and>
        0 \<le> n \<and> n \<le> SLIDER_MAX) \<and>
   slider_value \<lparr>p_var = ''gamma'', p_value = float_literal 60 10,
          p_range = Finite False 5516909543528858 (- 50),
          p_scale = Finite False 5744387279809306 (- 47),
          p_offset = Finite False 4595509823847445 (- 50), p_format = 2\<rparr> = Inr 241 \<and>
   then_do (set_from_slider_value \<lparr>p_var = ''gamma'', p_value = Finite False 4503599627370496 (- 52),
          p_range = Finite False 5516909543528858 (- 50),
          p_scale = Finite False 5744387279809306 (- 47),
          p_offset = Finite False 4595509823847445 (- 50), p_format = 2\<rparr> (SLIDER_MAX + 1))
     slider_value = Inr (SLIDER_MAX + 1)"
proof -
  let ?G = "\<lparr>min_val = float_literal 1 10, max_val = float_literal 50 10,
      default_val = float_literal 10 10, format_val = 2\<rparr>"
  let ?P = "\<lparr>p_var = ''gamma'', p_value = Finite False 4503599627370496 (- 52),
          p_range = Finite False 5516909543528858 (- 50),
          p_scale = Finite False 5744387279809306 (- 47),
          p_offset = Finite False 4595509823847445 (- 50), p_format = 2\<rparr>"
  let ?Q = "\<lparr>p_var = ''gamma'', p_value = float_literal 60 10,
          p_range = Finite False 5516909543528858 (- 50),
          p_scale = Finite False 5744387279809306 (- 47),
          p_offset = Finite False 4595509823847445 (- 50), p_format = 2\<rparr>"
  have 1: "(''gamma'', ?G) \<in> set RANGES" by (simp add: RANGES_def)
  have 2: "is_finite_double (float_literal 25 10)" by code_simp
  have 3: "fle (float_literal 1 10) (float_literal 25 10)" by code_simp
  have 4: "fle (float_literal 25 10) (float_literal 50 10)" by code_simp
  have lo: "fle (min_val ?G) (float_literal 25 10)" and hi: "fle (float_literal 25 10) (max_val ?G)"
    using 3 4 by simp_all
  note t = configured_slider_value_in_range[OF 1 gamma_parameter 2 lo hi]
  have r: "?P\<lparr>p_value := float_literal 25 10\<rparr> =
        \<lparr>p_var = ''gamma'', p_value = float_literal 25 10,
          p_range = Finite False 5516909543528858 (- 50),
          p_scale = Finite False 5744387279809306 (- 47),
          p_offset = Finite False 4595509823847445 (- 50), p_format = 2\<rparr>"
    by simp
  have 5: "\<exists>n. slider_value \<lparr>p_var = ''gamma'', p_value = float_literal 25 10,
          p_range = Finite False 5516909543528858 (- 50),
          p_scale = Finite False 5744387279809306 (- 47),
          p_offset = Finite False 4595509823847445 (- 50), p_format = 2\<rparr> = Inr n \<and>
        0 \<le> n \<and> n \<le> SLIDER_MAX"
    using t[THEN conjunct2, THEN conjunct1] unfolding r .
  have e: "py_round (fsub (fmul (p_value ?Q) (p_scale ?Q)) (p_offset ?Q)) = Inr 241"
    by code_simp
  have 6: "slider_value ?Q = Inr 241"
    using t[THEN conjunct1, THEN spec, of ?Q] unfolding e .
  have 7: "then_do (set_from_slider_value ?P (SLIDER_MAX + 1)) slider_value = Inr (SLIDER_MAX + 1)"
    by (rule t[THEN conjunct2, THEN conjunct2, THEN conjunct1])
  show ?thesis by (intro conjI 1 gamma_parameter 2 3 4 5 6 7)
qed

text \<open>
  The claim as stated fails for the range min = 1e16, max = 1e16 + 2: at the value max,
  \<open>slider_value()\<close> returns 256.
\<close>

theorem slider_value_in_range_counterexample:
  "flt (float_literal 10000000000000000 1) (float_literal 10000000000000002 1) \<and>
   is_finite_double (float_literal 10000000000000002 1) \<and>
   then_do (Parameter_init ''x''
       \<lparr>min_val = float_literal 10000000000000000 1, max_val = float_literal 10000000000000002 1,
        default_val = float_literal 10000000000000000 1, format_val = 2\<rparr>)
     (\<lambda>p. slider_value (p\<lparr>p_value := float_literal 10000000000000002 1\<rparr>))
     = Inr 256 \<and>
   \<not> 256 \<le> SLIDER_MAX"
  by code_simp

section \<open>Which calls return\<close>

text \<open>
  C10 (as amended).  For each of the four ranges of \<open>RANGES\<close> and every position in
  [0, \<open>SLIDER_MAX\<close>]: construction returns a parameter whose scale is not zero,
  \<open>slider_value()\<close> returns for it, \<open>set_from_slider_value\<close> with the position returns,
  and \<open>slider_value()\<close> and \<open>label()\<close> return for the result.  (\<open>label\<close> returns for
  every float.)
\<close>

theorem configured_operations_return:
  assumes "(var, rng) \<in> set RANGES" and "0 \<le> v" and "v \<le> SLIDER_MAX"
  shows "\<exists>p n0 q n. Parameter_init var rng = Inr p \<and> \<not> is_zero (p_scale p) \<and>
           slider_value p = Inr n0 \<and> set_from_slider_value p v = Inr q \<and>
           slider_value q = Inr n \<and> label q = format_fixed (format_val rng) (p_value q)"
  using assms(1)
proof (rule configured_rangeE)
  fix p
  assume p: "Parameter_init var rng = Inr p" "p_value p = default_val rng"
    and fin: "finite_float (p_offset p)" "finite_float (p_scale p)" "0 < fval (p_scale p)"
      "finite_float (min_val rng)" "finite_float (max_val rng)" "finite_float (default_val rng)"
    and le: "fval (min_val rng) \<le> fval (default_val rng)" "fval (default_val rng) \<le> fval (max_val rng)"
    and ends: "set_from_slider_value p 0 = Inr (p\<lparr>p_value := min_val rng\<rparr>)"
      "set_from_slider_value p SLIDER_MAX = Inr (p\<lparr>p_value := max_val rng\<rparr>)"
      "slider_value (p\<lparr>p_value := min_val rng\<rparr>) = Inr 0"
      "slider_value (p\<lparr>p_value := max_val rng\<rparr>) = Inr SLIDER_MAX"
  have sc: "0 \<le> fval (p_scale p)" using fin(3) by simp
  have nz: "\<not> is_zero (p_scale p)"
    using fin(2,3) by (cases "p_scale p") (auto simp: with_sign_def split: if_splits)
  have "\<exists>n. slider_value (p\<lparr>p_value := default_val rng\<rparr>) = Inr n \<and> 0 \<le> n \<and> n \<le> SLIDER_MAX"
    by (rule slider_value_between[OF fin(1,2) sc fin(4) fin(6) fin(5) le ends(3,4)])
  moreover have "p\<lparr>p_value := default_val rng\<rparr> = p" using p(2) by simp
  ultimately obtain n0 where n0: "slider_value p = Inr n0" by auto
  obtain x where x: "set_from_slider_value p v = Inr (p\<lparr>p_value := x\<rparr>)" "finite_float x"
      "fval (min_val rng) \<le> fval x" "fval x \<le> fval (max_val rng)"
    using set_from_slider_value_between[OF fin(1,2,3) assms(2,3) ends(1) _ ends(2)] fin(4,5)
    by auto
  obtain n where n: "slider_value (p\<lparr>p_value := x\<rparr>) = Inr n"
    using slider_value_between[OF fin(1,2) sc fin(4) x(2) fin(5) x(3,4) ends(3,4)] by blast
  have fmt: "p_format p = format_val rng"
    using p(1) by (auto simp: Parameter_init_def Let_def split: sum.splits)
  show ?thesis using p(1) nz n0 x(1) n fmt by (simp add: label_def del: slider_value_update)
qed

theorem configured_operations_return_witness:
  "(''gamma'', \<lparr>min_val = float_literal 1 10, max_val = float_literal 50 10,
        default_val = float_literal 10 10, format_val = 2\<rparr>) \<in> set RANGES \<and>
   (0::int) \<le> 37 \<and> 37 \<le> SLIDER_MAX \<and>
   (\<exists>p n0 q n. Parameter_init ''gamma'' \<lparr>min_val = float_literal 1 10, max_val = float_literal 50 10,
        default_val = float_literal 10 10, format_val = 2\<rparr> = Inr p \<and> \<not> is_zero (p_scale p) \<and>
           slider_value p = Inr n0 \<and> set_from_slider_value p 37 = Inr q \<and>
           slider_value q = Inr n \<and> label q = format_fixed 2 (p_value q))"
  using configured_operations_return[of "''gamma''" "\<lparr>min_val = float_literal 1 10, max_val = float_literal 50 10,
        default_val = float_literal 10 10, format_val = 2\<rparr>" 37]
  by (simp add: RANGES_def SLIDER_MAX_def)

text \<open>
  The claim as stated fails twice.  On the configured contrast parameter the position
  \<open>2^1024\<close> raises \<^verbatim>\<open>OverflowError\<close>: the integer has no float.  And for the range from
  the least to the largest finite double, max - min is infinite, the scale is 0.0 and
  \<open>set_from_slider_value\<close> raises \<^verbatim>\<open>ZeroDivisionError\<close> at every position.
\<close>

theorem operations_return_counterexample:
  "then_do (Parameter_init ''contrast''
       \<lparr>min_val = float_literal 0 10, max_val = float_literal 20 10,
        default_val = float_literal 10 10, format_val = 2\<rparr>)
     (\<lambda>p. set_from_slider_value p (2 ^ 1024)) = Inl OverflowError \<and>
   flt (Finite True 9007199254740991 971) (Finite False 9007199254740991 971) \<and>
   is_finite_double (Finite False 9007199254740991 971) \<and>
   then_do (Parameter_init ''x''
       \<lparr>min_val = Finite True 9007199254740991 971, max_val = Finite False 9007199254740991 971,
        default_val = float_literal 0 10, format_val = 2\<rparr>)
     (\<lambda>p. Inr (is_zero (p_scale p), set_from_slider_value p 100))
     = Inr (True, Inl ZeroDivisionError)"
proof -
  have "flt (Finite True 9007199254740991 971) (Finite False 9007199254740991 971) \<and>
   is_finite_double (Finite False 9007199254740991 971) \<and>
   then_do (Parameter_init ''x''
       \<lparr>min_val = Finite True 9007199254740991 971, max_val = Finite False 9007199254740991 971,
        default_val = float_literal 0 10, format_val = 2\<rparr>)
     (\<lambda>p. Inr (is_zero (p_scale p), set_from_slider_value p 100))
     = Inr (True, Inl ZeroDivisionError)"
    by code_simp
  then show ?thesis using huge_position_overflows by simp
qed

section \<open>The round trip of the default\<close>

lemma default_round_trip_RANGES:
  "list_all (\<lambda>(var, rng).
      then_do (Parameter_init var rng) (\<lambda>p.
      then_do (slider_value p) (\<lambda>n.
      then_do (set_from_slider_value p n) (\<lambda>q.
      then_do (int_to_float (2 * SLIDER_MAX)) (\<lambda>t.
      then_do (fdiv (p_range p) t) (\<lambda>h.
        Inr (fle (fabs (fsub (p_value q) (default_val rng))) h,
             p_value q = default_val rng))))))
      = Inr (True, var = ''contrast'' \<or> var = ''brightness'')) RANGES"
  by code_simp

text \<open>
  C3 (as amended).  For each of the four ranges of \<open>RANGES\<close>, starting from
  value = default, \<open>set_from_slider_value(slider_value())\<close> yields a value within half a
  slider step of the default, \<open>abs(value - default) <= (max - min) / (2 * SLIDER_MAX)\<close>;
  it is the default itself for contrast and brightness, and not for saturation and gamma.
\<close>

theorem default_round_trip:
  "(var, rng) \<in> set RANGES \<Longrightarrow>
      then_do (Parameter_init var rng) (\<lambda>p.
      then_do (slider_value p) (\<lambda>n.
      then_do (set_from_slider_value p n) (\<lambda>q.
      then_do (int_to_float (2 * SLIDER_MAX)) (\<lambda>t.
      then_do (fdiv (p_range p) t) (\<lambda>h.
        Inr (fle (fabs (fsub (p_value q) (default_val rng))) h,
             p_value q = default_val rng))))))
      = Inr (True, var = ''contrast'' \<or> var = ''brightness'')"
  using default_round_trip_RANGES unfolding list_all_iff by blast

theorem default_round_trip_witness:
  "(''gamma'', \<lparr>min_val = float_literal 1 10, max_val = float_literal 50 10,
        default_val = float_literal 10 10, format_val = 2\<rparr>) \<in> set RANGES \<and>
      then_do (Parameter_init ''gamma'' \<lparr>min_val = float_literal 1 10, max_val = float_literal 50 10,
        default_val = float_literal 10 10, format_val = 2\<rparr>) (\<lambda>p.
      then_do (slider_value p) (\<lambda>n.
      then_do (set_from_slider_value p n) (\<lambda>q.
      then_do (int_to_float (2 * SLIDER_MAX)) (\<lambda>t.
      then_do (fdiv (p_range p) t) (\<lambda>h.
        Inr (fle (fabs (fsub (p_value q) (float_literal 10 10))) h,
             p_value q = float_literal 10 10))))))
      = Inr (True, False)"
  using default_round_trip[of "''gamma''" "\<lparr>min_val = float_literal 1 10, max_val = float_literal 50 10,
        default_val = float_literal 10 10, format_val = 2\<rparr>"]
  by (simp add: RANGES_def)

text \<open>
  The claim as stated fails for gamma: the default 1.0 lies between two slider positions,
  \<open>slider_value()\<close> is 37 and position 37 gives 1.0065000000000002, shown as "1.01".
\<close>

theorem default_round_trip_counterexample:
  "then_do (Parameter_init ''gamma''
       \<lparr>min_val = float_literal 1 10, max_val = float_literal 50 10,
        default_val = float_literal 10 10, format_val = 2\<rparr>) (\<lambda>p.
   then_do (slider_value p) (\<lambda>n.
   then_do (set_from_slider_value p n) (\<lambda>q.
     Inr (p_value p, label p, n, p_value q, label q))))
   = Inr (float_literal 10 10, ''1.00'', 37, Finite False 4532873024948405 (- 52), ''1.01'') \<and>
   flt (float_literal 1006 1000) (Finite False 4532873024948405 (- 52))"
  by code_simp

section \<open>The filter command\<close>

lemma set_from_slider_value_var:
  "set_from_slider_value p v = Inr q \<Longrightarrow> p_var q = p_var p"
  by (auto simp: set_from_slider_value_def split: sum.splits)

lemma dict_put_keys:
  "dict_get d k = Inr x \<Longrightarrow> map fst (dict_put d k y) = map fst d"
  by (induction d) (auto split: if_splits)

lemma dict_put_vars:
  "list_all (\<lambda>(k, p). p_var p = k) d \<Longrightarrow> dict_get d k = Inr p \<Longrightarrow> p_var p' = p_var p
     \<Longrightarrow> list_all (\<lambda>(k, p). p_var p = k) (dict_put d k p')"
  by (induction d) (auto split: if_splits)

lemma filter_string_four:
  "filter_string [(''contrast'', c), (''brightness'', b), (''saturation'', s), (''gamma'', g)] =
     ''eq='' @ p_var c @ ''='' @ label c @ '':'' @ p_var b @ ''='' @ label b @ '':'' @
     p_var s @ ''='' @ label s @ '':'' @ p_var g @ ''='' @ label g"
  by (simp add: filter_string_def)

lemma slot_slider_value_changed_Inr:
  assumes "slot_slider_value_changed w var v = Inr w'"
  obtains p p' where "dict_get (parameters w) var = Inr p" "set_from_slider_value p v = Inr p'"
    "parameters w' = dict_put (parameters w) var p'"
    "mpv_commands w' = mpv_commands w @ [[''vf'', ''set'', filter_string (parameters w')]]"
  using assms unfolding slot_slider_value_changed_def then_do_def Let_def
  by (auto split: sum.splits)

text \<open>
  C8.  On every slider change that returns, the command sent to the player is
  \<open>['vf', 'set', 'eq=contrast=<v>:brightness=<v>:saturation=<v>:gamma=<v>']\<close>, each
  \<open><v>\<close> the \<open>label()\<close> of that parameter after the change, in this fixed order
  and joined by colons.  The window is one whose parameters are those of \<open>RANGES\<close>, in
  its order, each under its own name, as \<^verbatim>\<open>__init__\<close> builds them.
\<close>

theorem filter_command:
  assumes keys: "map fst (parameters w) = [''contrast'', ''brightness'', ''saturation'', ''gamma'']"
    and vars: "list_all (\<lambda>(k, p). p_var p = k) (parameters w)"
    and run: "slot_slider_value_changed w var v = Inr w'"
  shows "\<exists>c b s g. map snd (parameters w') = [c, b, s, g] \<and>
           mpv_commands w' = mpv_commands w @
             [[''vf'', ''set'',
               ''eq=contrast='' @ label c @ '':brightness='' @ label b @
               '':saturation='' @ label s @ '':gamma='' @ label g]]"
proof -
  obtain p p' where p: "dict_get (parameters w) var = Inr p" "set_from_slider_value p v = Inr p'"
    and w': "parameters w' = dict_put (parameters w) var p'"
      "mpv_commands w' = mpv_commands w @ [[''vf'', ''set'', filter_string (parameters w')]]"
    using run by (rule slot_slider_value_changed_Inr)
  have keys': "map fst (parameters w') = [''contrast'', ''brightness'', ''saturation'', ''gamma'']"
    unfolding w'(1) dict_put_keys[OF p(1)] by (rule keys)
  have vars': "list_all (\<lambda>(k, p). p_var p = k) (parameters w')"
    unfolding w'(1) by (rule dict_put_vars[OF vars p(1) set_from_slider_value_var[OF p(2)]])
  obtain c b s g where ps: "parameters w' =
      [(''contrast'', c), (''brightness'', b), (''saturation'', s), (''gamma'', g)]"
    using keys' by (auto simp: map_eq_Cons_conv)
  have v: "p_var c = ''contrast''" "p_var b = ''brightness''" "p_var s = ''saturation''"
      "p_var g = ''gamma''"
    using vars' unfolding ps by simp_all
  have "filter_string (parameters w') =
      ''eq=contrast='' @ label c @ '':brightness='' @ label b @
      '':saturation='' @ label s @ '':gamma='' @ label g"
    unfolding ps filter_string_four v by simp
  then show ?thesis using w'(2) ps by simp
qed

lemma MainWindow_init_value:
  "case MainWindow_init of
     Inl _ \<Rightarrow> False
   | Inr w \<Rightarrow>
       map fst (parameters w) = [''contrast'', ''brightness'', ''saturation'', ''gamma''] \<and>
       list_all (\<lambda>(k, p). p_var p = k) (parameters w) \<and>
       mpv_commands w = [] \<and>
       (case slot_slider_value_changed w ''gamma'' 37 of Inl _ \<Rightarrow> False | Inr w' \<Rightarrow> True)"
  by code_simp

theorem filter_command_witness:
  "\<exists>w w'. MainWindow_init = Inr w \<and>
     map fst (parameters w) = [''contrast'', ''brightness'', ''saturation'', ''gamma''] \<and>
     list_all (\<lambda>(k, p). p_var p = k) (parameters w) \<and>
     slot_slider_value_changed w ''gamma'' 37 = Inr w' \<and>
     (\<exists>c b s g. map snd (parameters w') = [c, b, s, g] \<and>
        mpv_commands w' =
          [[''vf'', ''set'',
            ''eq=contrast='' @ label c @ '':brightness='' @ label b @
            '':saturation='' @ label s @ '':gamma='' @ label g]])"
proof -
  obtain w where w: "MainWindow_init = Inr w"
    using MainWindow_init_value by (auto split: sum.splits)
  note f = MainWindow_init_value[unfolded w sum.case]
  obtain w' where w': "slot_slider_value_changed w ''gamma'' 37 = Inr w'"
    using f by (auto split: sum.splits)
  have k: "map fst (parameters w) = [''contrast'', ''brightness'', ''saturation'', ''gamma'']"
    and v: "list_all (\<lambda>(k, p). p_var p = k) (parameters w)" and m: "mpv_commands w = []"
    using f by simp_all
  show ?thesis using filter_command[OF k v w'] w k v w' m by auto
qed

section \<open>Construction\<close>

text \<open>
  The difference of two finite doubles is zero only if they are equal: the exact
  difference is a multiple of \<open>2^-1074\<close>, which gradual underflow never rounds to zero.
\<close>

lemma is_finite_double_exp:
  assumes "is_finite_double x"
  obtains s m e where "x = Finite s m e" "0 \<le> m" "- 1074 \<le> e"
  using assms by (cases x) (auto split: if_splits)

lemma round_int_not_zero:
  assumes "a \<noteq> 0" "- 1074 \<le> e"
  shows "\<not> is_zero (round_int a e)"
proof -
  let ?A = "\<bar>a\<bar> * 2 ^ nat e" and ?B = "(2::int) ^ nat (- e)"
  have A: "0 < ?A" and B: "0 < ?B" using assms(1) by simp_all
  have q: "real_of_int ?A / real_of_int ?B = real_of_int \<bar>a\<bar> * 2 powi e"
    by (rule round_scaled_ratio)
  have "2 powi (- 1074) \<le> (2::real) powi e" using assms(2) by (rule powi_mono)
  also have "\<dots> = real_of_int 1 * 2 powi e" by simp
  also have "\<dots> \<le> real_of_int \<bar>a\<bar> * 2 powi e"
    by (rule mult_right_mono) (use assms(1) in simp_all)
  finally have "2 powi (- 1074) \<le> real_of_int ?A / real_of_int ?B" unfolding q .
  then have pos: "0 < rmag ?A ?B" by (rule rmag_pos[OF A B])
  have A0: "0 \<le> ?A" using A by simp
  show ?thesis
    unfolding round_int_def round_scaled_def
  proof (rule round_ratio_cases[OF A0 B, of "a < 0"])
    assume "round_ratio (a < 0) ?A ?B = Infinity (a < 0)"
    then show "\<not> is_zero (round_ratio (a < 0) ?A ?B)" by simp
  next
    fix m e'
    assume r: "round_ratio (a < 0) ?A ?B = Finite (a < 0) m e'"
      and v: "real_of_int m * 2 powi e' = rmag ?A ?B"
    have "m \<noteq> 0" using v pos by auto
    then show "\<not> is_zero (round_ratio (a < 0) ?A ?B)" using r by simp
  qed
qed

lemma fadd_zero_iff:
  assumes "- 1074 \<le> e1" "- 1074 \<le> e2"
  shows "is_zero (fadd (Finite s1 m1 e1) (Finite s2 m2 e2)) \<longleftrightarrow>
         fval (Finite s1 m1 e1) + fval (Finite s2 m2 e2) = 0"
proof -
  let ?e = "min e1 e2"
  let ?a = "with_sign s1 m1 * 2 ^ nat (e1 - ?e) + with_sign s2 m2 * 2 ^ nat (e2 - ?e)"
  have ex: "real_of_int ?a * 2 powi ?e = fval (Finite s1 m1 e1) + fval (Finite s2 m2 e2)"
    by (rule fadd_exact)
  have e: "- 1074 \<le> ?e" using assms by simp
  show ?thesis
  proof (cases "?a = 0")
    case True
    then have "is_zero (fadd (Finite s1 m1 e1) (Finite s2 m2 e2))"
      unfolding fadd_Finite Let_def by simp
    moreover have "fval (Finite s1 m1 e1) + fval (Finite s2 m2 e2) = 0"
      using ex True by simp
    ultimately show ?thesis by simp
  next
    case False
    then have "\<not> is_zero (fadd (Finite s1 m1 e1) (Finite s2 m2 e2))"
      unfolding fadd_Finite Let_def using round_int_not_zero[OF False e] by simp
    moreover have "fval (Finite s1 m1 e1) + fval (Finite s2 m2 e2) \<noteq> 0"
      using ex False by (metis mult_eq_0_iff of_int_eq_0_iff powi_pos less_irrefl)
    ultimately show ?thesis by simp
  qed
qed

lemma fsub_zero_iff:
  assumes "is_finite_double x" "is_finite_double y"
  shows "is_zero (fsub x y) \<longleftrightarrow> feq x y"
proof -
  obtain s1 m1 e1 where x: "x = Finite s1 m1 e1" "- 1074 \<le> e1"
    using assms(1) by (rule is_finite_double_exp)
  obtain s2 m2 e2 where y: "y = Finite s2 m2 e2" "- 1074 \<le> e2"
    using assms(2) by (rule is_finite_double_exp)
  have "is_zero (fsub x y) \<longleftrightarrow> fval x + fval (fneg y) = 0"
    unfolding x y fsub_def fneg.simps by (rule fadd_zero_iff[OF x(2) y(2)])
  also have "\<dots> \<longleftrightarrow> fval x = fval y" by simp
  also have "\<dots> \<longleftrightarrow> feq x y" unfolding x y by (simp only: feq_Finite)
  finally show ?thesis .
qed

lemma slider_max_float: "int_to_float SLIDER_MAX = Inr (Finite False 7036874417766400 (- 45))"
  by code_simp

lemma fdiv_error_iff: "(\<exists>err. fdiv x y = Inl err) \<longleftrightarrow> is_zero y"
  by (cases y; cases x) simp_all

lemma fdiv_error: "fdiv x y = Inl err \<Longrightarrow> err = ZeroDivisionError"
  by (cases y; cases x) (simp_all split: if_splits)

text \<open>
  C5 (as amended).  For a range whose \<open>min\<close> and \<open>max\<close> are finite doubles, \<open>Parameter.__init__\<close>
  raises \<^verbatim>\<open>ZeroDivisionError\<close> when \<open>max == min\<close>, and raises nothing otherwise: it then
  returns the parameter with \<open>scale = SLIDER_MAX / (max - min)\<close>,
  \<open>offset = min * scale\<close> and \<open>value = default\<close>, each operation being that of the
  floats.  So construction fails if and only if \<open>max == min\<close>, and with no other error.
\<close>

theorem Parameter_init_result:
  assumes "is_finite_double (min_val rng)" and "is_finite_double (max_val rng)"
  shows "\<exists>slider_max. int_to_float SLIDER_MAX = Inr slider_max \<and>
     (if feq (max_val rng) (min_val rng)
      then Parameter_init var rng = Inl ZeroDivisionError
      else \<exists>scale. fdiv slider_max (fsub (max_val rng) (min_val rng)) = Inr scale \<and>
             Parameter_init var rng =
               Inr \<lparr>p_var = var, p_value = default_val rng,
                    p_range = fsub (max_val rng) (min_val rng), p_scale = scale,
                    p_offset = fmul (min_val rng) scale, p_format = format_val rng\<rparr>)"
proof -
  let ?sm = "Finite False 7036874417766400 (- 45)"
  let ?range = "fsub (max_val rng) (min_val rng)"
  have z: "is_zero ?range \<longleftrightarrow> feq (max_val rng) (min_val rng)"
    using assms(2,1) by (rule fsub_zero_iff)
  have "if feq (max_val rng) (min_val rng)
      then Parameter_init var rng = Inl ZeroDivisionError
      else \<exists>scale. fdiv ?sm ?range = Inr scale \<and>
             Parameter_init var rng =
               Inr \<lparr>p_var = var, p_value = default_val rng, p_range = ?range, p_scale = scale,
                    p_offset = fmul (min_val rng) scale, p_format = format_val rng\<rparr>"
  proof (cases "feq (max_val rng) (min_val rng)")
    case True
    then have "is_zero ?range" using z by simp
    then obtain err where e: "fdiv ?sm ?range = Inl err" using fdiv_error_iff by blast
    then have "err = ZeroDivisionError" by (rule fdiv_error)
    then have "Parameter_init var rng = Inl ZeroDivisionError"
      using e unfolding Parameter_init_def Let_def slider_max_float by simp
    then show ?thesis using True by simp
  next
    case False
    then have "\<not> is_zero ?range" using z by simp
    then have "\<nexists>err. fdiv ?sm ?range = Inl err" using fdiv_error_iff by blast
    then obtain scale where sc: "fdiv ?sm ?range = Inr scale"
      by (cases "fdiv ?sm ?range") auto
    then have "Parameter_init var rng =
               Inr \<lparr>p_var = var, p_value = default_val rng, p_range = ?range, p_scale = scale,
                    p_offset = fmul (min_val rng) scale, p_format = format_val rng\<rparr>"
      unfolding Parameter_init_def Let_def slider_max_float by simp
    then show ?thesis using False sc by simp
  qed
  then show ?thesis using slider_max_float by blast
qed

lemma construction_examples:
  "is_finite_double (float_literal 1 10) \<and> is_finite_double (float_literal 50 10) \<and>
   feq (float_literal 50 10) (float_literal 1 10) = False \<and>
   is_finite_double (float_literal 10 10) \<and>
   feq (float_literal 10 10) (float_literal 10 10) = True"
  by code_simp

theorem Parameter_init_result_witness:
  "is_finite_double (float_literal 1 10) \<and> is_finite_double (float_literal 50 10) \<and>
   feq (float_literal 50 10) (float_literal 1 10) = False \<and>
   (\<exists>slider_max scale. int_to_float SLIDER_MAX = Inr slider_max \<and>
      fdiv slider_max (fsub (float_literal 50 10) (float_literal 1 10)) = Inr scale \<and>
      Parameter_init ''gamma''
        \<lparr>min_val = float_literal 1 10, max_val = float_literal 50 10,
         default_val = float_literal 10 10, format_val = 2\<rparr> =
      Inr \<lparr>p_var = ''gamma'', p_value = float_literal 10 10,
           p_range = fsub (float_literal 50 10) (float_literal 1 10), p_scale = scale,
           p_offset = fmul (float_literal 1 10) scale, p_format = 2\<rparr>) \<and>
   is_finite_double (float_literal 10 10) \<and>
   feq (float_literal 10 10) (float_literal 10 10) = True \<and>
   Parameter_init ''flat''
        \<lparr>min_val = float_literal 10 10, max_val = float_literal 10 10,
         default_val = float_literal 10 10, format_val = 2\<rparr> = Inl ZeroDivisionError"
  using Parameter_init_result[of "\<lparr>min_val = float_literal 1 10, max_val = float_literal 50 10,
         default_val = float_literal 10 10, format_val = 2\<rparr>" "''gamma''"]
    Parameter_init_result[of "\<lparr>min_val = float_literal 10 10, max_val = float_literal 10 10,
         default_val = float_literal 10 10, format_val = 2\<rparr>" "''flat''"]
    construction_examples
  by auto

text \<open>
  The claim as stated fails in two ways.  With both bounds infinite \<open>max == min\<close> holds,
  but their difference is a NaN, not zero, and construction raises nothing.  And a
  degenerate range is not the only error of the scaler: from the least to the largest
  finite double max - min is infinite, the scale is 0.0 and \<open>set_from_slider_value\<close>
  raises \<^verbatim>\<open>ZeroDivisionError\<close>; from 0.0 to the least positive double the scale is
  infinite, the offset a NaN and \<open>slider_value()\<close> raises \<^verbatim>\<open>ValueError\<close>.
\<close>

theorem construction_counterexample:
  "feq (Infinity False) (Infinity False) \<and>
   Parameter_init ''x''
     \<lparr>min_val = Infinity False, max_val = Infinity False,
      default_val = float_literal 0 10, format_val = 2\<rparr> =
   Inr \<lparr>p_var = ''x'', p_value = float_literal 0 10, p_range = NaN, p_scale = NaN,
        p_offset = NaN, p_format = 2\<rparr> \<and>
   is_finite_double (Finite True 9007199254740991 971) \<and>
   is_finite_double (Finite False 9007199254740991 971) \<and>
   flt (Finite True 9007199254740991 971) (Finite False 9007199254740991 971) \<and>
   then_do (Parameter_init ''x''
       \<lparr>min_val = Finite True 9007199254740991 971, max_val = Finite False 9007199254740991 971,
        default_val = float_literal 0 10, format_val = 2\<rparr>)
     (\<lambda>p. set_from_slider_value p 100) = Inl ZeroDivisionError \<and>
   is_finite_double (float_literal 0 10) \<and>
   is_finite_double (Finite False 1 (- 1074)) \<and>
   flt (float_literal 0 10) (Finite False 1 (- 1074)) \<and>
   then_do (Parameter_init ''x''
       \<lparr>min_val = float_literal 0 10, max_val = Finite False 1 (- 1074),
        default_val = float_literal 0 10, format_val = 2\<rparr>)
     slider_value = Inl ValueError"
  by code_simp

section \<open>Positions outside the slider\<close>

text \<open>
  Below the least and above the greatest position the rounded operations are still
  monotone, with the infinities as possible results.
\<close>

lemma fle_Infinity_left: "float_ok r \<Longrightarrow> fle (Infinity True) r"
  by (cases r) simp_all

lemma fle_Infinity_right: "float_ok r \<Longrightarrow> fle r (Infinity False)"
  by (cases r) simp_all

lemma flt_Infinity_Finite [simp]: "flt (Infinity t) (Finite s m e) \<longleftrightarrow> t"
  by (simp add: flt_def with_sign_def)

lemma flt_Finite_Infinity [simp]: "flt (Finite s m e) (Infinity t) \<longleftrightarrow> \<not> t"
  by (simp add: flt_def with_sign_def)

lemma fle_flt_below:
  assumes "float_ok r" "fle r u" "finite_float u" "finite_float w" "fval u < fval w"
  shows "flt r w"
proof (cases r)
  case (Finite s m e)
  then have r: "finite_float r" using assms(1) by simp
  then have "fval r \<le> fval u" using assms(2,3) fle_fval by blast
  then have "fval r < fval w" using assms(5) by simp
  then show ?thesis using r assms(4) flt_fval by blast
next
  case (Infinity s)
  then show ?thesis using assms(2,3,4) by (auto elim!: finite_floatE)
next
  case NaN
  then show ?thesis using assms(1) by simp
qed

lemma fle_flt_above:
  assumes "float_ok r" "fle u r" "finite_float u" "finite_float w" "fval w < fval u"
  shows "flt w r"
proof (cases r)
  case (Finite s m e)
  then have r: "finite_float r" using assms(1) by simp
  then have "fval u \<le> fval r" using assms(2,3) fle_fval by blast
  then have "fval w < fval r" using assms(5) by simp
  then show ?thesis using r assms(4) flt_fval by blast
next
  case (Infinity s)
  then show ?thesis using assms(2,3,4) by (auto elim!: finite_floatE)
next
  case NaN
  then show ?thesis using assms(1) by simp
qed

lemma positive_float:
  assumes "finite_float z" "0 < fval z"
  obtains m e where "z = Finite False m e" "0 < m"
proof -
  obtain s m e where z: "z = Finite s m e" "0 \<le> m" using assms(1) by (cases z) auto
  have "0 < real_of_int (with_sign s m) * 2 powi e" using assms(2) z by simp
  then have "0 < real_of_int (with_sign s m)" using powi_pos[of e] by (simp add: zero_less_mult_iff)
  then have "\<not> s" "0 < m" using z(2) by (auto simp: with_sign_def split: if_splits)
  then show ?thesis using that z by simp
qed

lemma fdiv_mono_ok:
  assumes "float_ok x" "float_ok y" "fle x y" "finite_float z" "0 < fval z"
  shows "\<exists>r1 r2. fdiv x z = Inr r1 \<and> fdiv y z = Inr r2 \<and> float_ok r1 \<and> float_ok r2 \<and> fle r1 r2"
proof -
  obtain m e where z: "z = Finite False m e" "0 < m" using assms(4,5) by (rule positive_float)
  have fin: "\<exists>r. fdiv u z = Inr r \<and> float_ok r" if "finite_float u" for u
    using fdiv_mono[OF that that assms(4,5)] by auto
  have inf: "fdiv (Infinity s) z = Inr (Infinity s)" for s using z by simp
  show ?thesis
  proof (cases x)
    case x: (Finite s1 m1 e1)
    then have fx: "finite_float x" using assms(1) by simp
    show ?thesis
    proof (cases y)
      case (Finite s2 m2 e2)
      then have fy: "finite_float y" using assms(2) by simp
      then have "fval x \<le> fval y" using fx assms(3) fle_fval by blast
      then show ?thesis by (rule fdiv_mono[OF fx fy assms(4,5)])
    next
      case (Infinity t)
      then have t: "y = Infinity False" using assms(3) x by simp
      obtain r where r: "fdiv x z = Inr r" "float_ok r" using fin[OF fx] by blast
      show ?thesis unfolding t inf using r fle_Infinity_right by simp
    next
      case NaN
      then show ?thesis using assms(2) by simp
    qed
  next
    case x: (Infinity s)
    show ?thesis
    proof (cases y)
      case (Finite s2 m2 e2)
      then have fy: "finite_float y" using assms(2) by simp
      have s: "x = Infinity True" using assms(3) x Finite by simp
      obtain r where r: "fdiv y z = Inr r" "float_ok r" using fin[OF fy] by blast
      show ?thesis unfolding s inf using r fle_Infinity_left by simp
    next
      case (Infinity t)
      then show ?thesis using assms(3) unfolding x Infinity inf by simp
    next
      case NaN
      then show ?thesis using assms(2) by simp
    qed
  next
    case NaN
    then show ?thesis using assms(1) by simp
  qed
qed

lemma set_from_slider_value_below:
  assumes off: "finite_float (p_offset p)" and sc: "finite_float (p_scale p)" "0 < fval (p_scale p)"
    and v: "v \<le> lo" and l: "set_from_slider_value p lo = Inr pl"
    and fv: "int_to_float v = Inr fv"
  shows "\<exists>x. fdiv (fadd fv (p_offset p)) (p_scale p) = Inr x \<and>
           set_from_slider_value p v = Inr (p\<lparr>p_value := x\<rparr>) \<and> float_ok x \<and> fle x (p_value pl)"
proof -
  obtain a where a: "int_to_float lo = Inr a"
      "fdiv (fadd a (p_offset p)) (p_scale p) = Inr (p_value pl)"
    using l by (rule set_from_slider_value_Inr)
  have m: "finite_float fv" "finite_float a" "fval fv \<le> fval a"
    using int_to_float_mono[OF v fv a(1)] by simp_all
  have "fle (fadd fv (p_offset p)) (fadd a (p_offset p))"
    using m(1,2) off m(3) by (rule fadd_mono)
  moreover have "float_ok (fadd fv (p_offset p))" "float_ok (fadd a (p_offset p))"
    using m off by (simp_all add: fadd_ok del: fadd.simps)
  ultimately obtain r1 r2 where r: "fdiv (fadd fv (p_offset p)) (p_scale p) = Inr r1"
      "fdiv (fadd a (p_offset p)) (p_scale p) = Inr r2" "float_ok r1" "fle r1 r2"
    using fdiv_mono_ok[OF _ _ _ sc] by blast
  have "r2 = p_value pl" using r(2) a(2) by simp
  then show ?thesis using r fv by (simp add: set_from_slider_value_def)
qed

lemma set_from_slider_value_above:
  assumes off: "finite_float (p_offset p)" and sc: "finite_float (p_scale p)" "0 < fval (p_scale p)"
    and v: "hi \<le> v" and h: "set_from_slider_value p hi = Inr ph"
    and fv: "int_to_float v = Inr fv"
  shows "\<exists>x. fdiv (fadd fv (p_offset p)) (p_scale p) = Inr x \<and>
           set_from_slider_value p v = Inr (p\<lparr>p_value := x\<rparr>) \<and> float_ok x \<and> fle (p_value ph) x"
proof -
  obtain a where a: "int_to_float hi = Inr a"
      "fdiv (fadd a (p_offset p)) (p_scale p) = Inr (p_value ph)"
    using h by (rule set_from_slider_value_Inr)
  have m: "finite_float a" "finite_float fv" "fval a \<le> fval fv"
    using int_to_float_mono[OF v a(1) fv] by simp_all
  have "fle (fadd a (p_offset p)) (fadd fv (p_offset p))"
    using m(1,2) off m(3) by (rule fadd_mono)
  moreover have "float_ok (fadd fv (p_offset p))" "float_ok (fadd a (p_offset p))"
    using m off by (simp_all add: fadd_ok del: fadd.simps)
  ultimately obtain r1 r2 where r: "fdiv (fadd a (p_offset p)) (p_scale p) = Inr r1"
      "fdiv (fadd fv (p_offset p)) (p_scale p) = Inr r2" "float_ok r2" "fle r1 r2"
    using fdiv_mono_ok[OF _ _ _ sc] by blast
  have "r1 = p_value ph" using r(1) a(2) by simp
  then show ?thesis using r fv by (simp add: set_from_slider_value_def)
qed

lemma configured_outsideE:
  assumes "(var, rng) \<in> set RANGES" "Parameter_init var rng = Inr p"
  obtains ql qh where
    "set_from_slider_value p (- 1) = Inr ql" "finite_float (p_value ql)"
    "fval (p_value ql) < fval (min_val rng)"
    "set_from_slider_value p (SLIDER_MAX + 1) = Inr qh" "finite_float (p_value qh)"
    "fval (max_val rng) < fval (p_value qh)"
proof -
  have c: "checked_range var rng"
    using checked_RANGES assms(1) by (auto simp: list_all_iff)
  note f = c[unfolded checked_range_def assms(2) sum.case]
  have fin: "finite_float (min_val rng)" "finite_float (max_val rng)"
    using f by (simp_all add: is_finite_double_finite)
  obtain ql where ql: "set_from_slider_value p (- 1) = Inr ql" "finite_float (p_value ql)"
      "flt (p_value ql) (min_val rng)"
    using f by (cases "set_from_slider_value p (- 1)") simp_all
  obtain qh where qh: "set_from_slider_value p (SLIDER_MAX + 1) = Inr qh" "finite_float (p_value qh)"
      "flt (max_val rng) (p_value qh)"
    using f by (cases "set_from_slider_value p (SLIDER_MAX + 1)") simp_all
  have "fval (p_value ql) < fval (min_val rng)" using ql fin flt_fval by blast
  moreover have "fval (max_val rng) < fval (p_value qh)" using qh fin flt_fval by blast
  ultimately show ?thesis using that ql qh by blast
qed

lemma int_to_float_error: "int_to_float v = Inl err \<Longrightarrow> err = OverflowError"
  unfolding int_to_float_def by (cases "round_ratio (v < 0) \<bar>v\<bar> 1") simp_all

text \<open>
  What \<open>set_from_slider_value\<close> does for every parameter and every integer.
\<close>

lemma set_from_slider_value_result:
  "case int_to_float v of
     Inl err \<Rightarrow> set_from_slider_value q v = Inl OverflowError
   | Inr fv \<Rightarrow>
       if is_zero (p_scale q) then set_from_slider_value q v = Inl ZeroDivisionError
       else \<exists>x. fdiv (fadd fv (p_offset q)) (p_scale q) = Inr x \<and>
                set_from_slider_value q v = Inr (q\<lparr>p_value := x\<rparr>)"
proof (cases "int_to_float v")
  case (Inl err)
  then have "set_from_slider_value q v = Inl OverflowError"
    using int_to_float_error[OF Inl] by (simp add: set_from_slider_value_def)
  then show ?thesis using Inl by simp
next
  case (Inr fv)
  let ?d = "fdiv (fadd fv (p_offset q)) (p_scale q)"
  show ?thesis
  proof (cases "is_zero (p_scale q)")
    case True
    then obtain err where e: "?d = Inl err" using fdiv_error_iff by blast
    then have "err = ZeroDivisionError" by (rule fdiv_error)
    then have "set_from_slider_value q v = Inl ZeroDivisionError"
      using e Inr by (simp add: set_from_slider_value_def)
    then show ?thesis using Inr True by simp
  next
    case False
    then have "\<nexists>err. ?d = Inl err" using fdiv_error_iff by blast
    then obtain x where x: "?d = Inr x" by (cases ?d) auto
    then have "set_from_slider_value q v = Inr (q\<lparr>p_value := x\<rparr>)"
      using Inr by (simp add: set_from_slider_value_def)
    then show ?thesis using Inr False x by simp
  qed
qed

text \<open>
  C7 (as amended).  \<open>set_from_slider_value\<close> does not clamp.  For every parameter and
  every integer position: a position that has no float raises \<^verbatim>\<open>OverflowError\<close>;
  otherwise a scale of zero raises \<^verbatim>\<open>ZeroDivisionError\<close>; otherwise the value is set to
  \<open>(position + offset) / scale\<close> in float arithmetic.  For each of the four ranges of
  \<open>RANGES\<close> every position that has a float sets the value, which is less than \<open>min\<close>
  for a negative position, greater than \<open>max\<close> for a position above \<open>SLIDER_MAX\<close>, and
  in [min, max] for a position in [0, \<open>SLIDER_MAX\<close>].
\<close>

theorem configured_out_of_range:
  assumes "(var, rng) \<in> set RANGES" and "Parameter_init var rng = Inr p"
  shows "(\<forall>q. case int_to_float v of
             Inl err \<Rightarrow> set_from_slider_value q v = Inl OverflowError
           | Inr fv \<Rightarrow>
               if is_zero (p_scale q) then set_from_slider_value q v = Inl ZeroDivisionError
               else \<exists>x. fdiv (fadd fv (p_offset q)) (p_scale q) = Inr x \<and>
                        set_from_slider_value q v = Inr (q\<lparr>p_value := x\<rparr>)) \<and>
         (case int_to_float v of
            Inl err \<Rightarrow> set_from_slider_value p v = Inl OverflowError
          | Inr fv \<Rightarrow>
             \<exists>x. fdiv (fadd fv (p_offset p)) (p_scale p) = Inr x \<and>
                 set_from_slider_value p v = Inr (p\<lparr>p_value := x\<rparr>) \<and>
                 (if v < 0 then flt x (min_val rng)
                  else if SLIDER_MAX < v then flt (max_val rng) x
                  else fle (min_val rng) x \<and> fle x (max_val rng)))"
proof (intro conjI allI)
  fix q
  show "case int_to_float v of
             Inl err \<Rightarrow> set_from_slider_value q v = Inl OverflowError
           | Inr fv \<Rightarrow>
               if is_zero (p_scale q) then set_from_slider_value q v = Inl ZeroDivisionError
               else \<exists>x. fdiv (fadd fv (p_offset q)) (p_scale q) = Inr x \<and>
                        set_from_slider_value q v = Inr (q\<lparr>p_value := x\<rparr>)"
    by (rule set_from_slider_value_result)
next
  show "case int_to_float v of
            Inl err \<Rightarrow> set_from_slider_value p v = Inl OverflowError
          | Inr fv \<Rightarrow>
             \<exists>x. fdiv (fadd fv (p_offset p)) (p_scale p) = Inr x \<and>
                 set_from_slider_value p v = Inr (p\<lparr>p_value := x\<rparr>) \<and>
                 (if v < 0 then flt x (min_val rng)
                  else if SLIDER_MAX < v then flt (max_val rng) x
                  else fle (min_val rng) x \<and> fle x (max_val rng))"
  proof (cases "int_to_float v")
    case (Inl err)
    then have "set_from_slider_value p v = Inl OverflowError"
      using int_to_float_error[OF Inl] by (simp add: set_from_slider_value_def)
    then show ?thesis using Inl by simp
  next
    case (Inr fv)
    obtain p' where p': "Parameter_init var rng = Inr p'"
        "finite_float (p_offset p')" "finite_float (p_scale p')" "0 < fval (p_scale p')"
        "finite_float (min_val rng)" "finite_float (max_val rng)"
        "set_from_slider_value p' 0 = Inr (p'\<lparr>p_value := min_val rng\<rparr>)"
        "set_from_slider_value p' SLIDER_MAX = Inr (p'\<lparr>p_value := max_val rng\<rparr>)"
      using assms(1) by (rule configured_rangeE)
    have pp: "p' = p" using p'(1) assms(2) by simp
    note fin = p'(2-6)[unfolded pp]
    note ends = p'(7,8)[unfolded pp]
    obtain ql qh where
      ql: "set_from_slider_value p (- 1) = Inr ql" "finite_float (p_value ql)"
        "fval (p_value ql) < fval (min_val rng)" and
      qh: "set_from_slider_value p (SLIDER_MAX + 1) = Inr qh" "finite_float (p_value qh)"
        "fval (max_val rng) < fval (p_value qh)"
      using assms(1,2) by (rule configured_outsideE)
    have "\<exists>x. fdiv (fadd fv (p_offset p)) (p_scale p) = Inr x \<and>
                 set_from_slider_value p v = Inr (p\<lparr>p_value := x\<rparr>) \<and>
                 (if v < 0 then flt x (min_val rng)
                  else if SLIDER_MAX < v then flt (max_val rng) x
                  else fle (min_val rng) x \<and> fle x (max_val rng))"
    proof -
      consider "v < 0" | "SLIDER_MAX < v" | "0 \<le> v" "v \<le> SLIDER_MAX" by linarith
      then show ?thesis
      proof cases
        case 1
        then have v: "v \<le> - 1" by simp
        obtain x where x: "fdiv (fadd fv (p_offset p)) (p_scale p) = Inr x"
            "set_from_slider_value p v = Inr (p\<lparr>p_value := x\<rparr>)" "float_ok x" "fle x (p_value ql)"
          using set_from_slider_value_below[OF fin(1,2,3) v ql(1) Inr] by blast
        have "flt x (min_val rng)" using x(3,4) ql(2) fin(4) ql(3) by (rule fle_flt_below)
        then show ?thesis using x 1 by simp
      next
        case 2
        then have v: "SLIDER_MAX + 1 \<le> v" by simp
        have n: "\<not> v < 0" using 2 by (simp add: SLIDER_MAX_def)
        obtain x where x: "fdiv (fadd fv (p_offset p)) (p_scale p) = Inr x"
            "set_from_slider_value p v = Inr (p\<lparr>p_value := x\<rparr>)" "float_ok x" "fle (p_value qh) x"
          using set_from_slider_value_above[OF fin(1,2,3) v qh(1) Inr] by blast
        have "flt (max_val rng) x" using x(3,4) qh(2) fin(5) qh(3) by (rule fle_flt_above)
        then show ?thesis using x 2 n by simp
      next
        case 3
        obtain x where x: "set_from_slider_value p v = Inr (p\<lparr>p_value := x\<rparr>)" "finite_float x"
            "fval (min_val rng) \<le> fval x" "fval x \<le> fval (max_val rng)"
          using set_from_slider_value_between[OF fin(1,2,3) 3 ends(1) _ ends(2)] fin(4,5)
          by auto
        obtain fv' where fv': "int_to_float v = Inr fv'"
            "fdiv (fadd fv' (p_offset p)) (p_scale p) = Inr (p_value (p\<lparr>p_value := x\<rparr>))"
          using x(1) by (rule set_from_slider_value_Inr)
        have d: "fdiv (fadd fv (p_offset p)) (p_scale p) = Inr x" using fv' Inr by simp
        have "fle (min_val rng) x" "fle x (max_val rng)"
          using x(2,3,4) fin(4,5) fle_fval by blast+
        then show ?thesis using d x(1) 3 by simp
      qed
    qed
    then show ?thesis using Inr by simp
  qed
qed

lemma out_of_range_examples:
  "int_to_float 201 = Inr (Finite False 7072058789855232 (- 45)) \<and>
   int_to_float (- 1) = Inr (Finite True 4503599627370496 (- 52)) \<and>
   int_to_float (2 ^ 1024) = Inl OverflowError"
  by code_simp

theorem configured_out_of_range_witness:
  "(''gamma'', \<lparr>min_val = float_literal 1 10, max_val = float_literal 50 10,
        default_val = float_literal 10 10, format_val = 2\<rparr>) \<in> set RANGES \<and>
   Parameter_init ''gamma'' \<lparr>min_val = float_literal 1 10, max_val = float_literal 50 10,
        default_val = float_literal 10 10, format_val = 2\<rparr> =
     Inr \<lparr>p_var = ''gamma'', p_value = Finite False 4503599627370496 (- 52),
          p_range = Finite False 5516909543528858 (- 50),
          p_scale = Finite False 5744387279809306 (- 47),
          p_offset = Finite False 4595509823847445 (- 50), p_format = 2\<rparr> \<and>
   SLIDER_MAX < 201 \<and>
   (\<exists>x. fdiv (fadd (Finite False 7072058789855232 (- 45)) (Finite False 4595509823847445 (- 50)))
            (Finite False 5744387279809306 (- 47)) = Inr x \<and>
        set_from_slider_value
          \<lparr>p_var = ''gamma'', p_value = Finite False 4503599627370496 (- 52),
           p_range = Finite False 5516909543528858 (- 50),
           p_scale = Finite False 5744387279809306 (- 47),
           p_offset = Finite False 4595509823847445 (- 50), p_format = 2\<rparr> 201 =
        Inr \<lparr>p_var = ''gamma'', p_value = x,
           p_range = Finite False 5516909543528858 (- 50),
           p_scale = Finite False 5744387279809306 (- 47),
           p_offset = Finite False 4595509823847445 (- 50), p_format = 2\<rparr> \<and>
        flt (float_literal 50 10) x) \<and>
   (- 1 :: int) < 0 \<and>
   (\<exists>x. fdiv (fadd (Finite True 4503599627370496 (- 52)) (Finite False 4595509823847445 (- 50)))
            (Finite False 5744387279809306 (- 47)) = Inr x \<and>
        flt x (float_literal 1 10)) \<and>
   set_from_slider_value
          \<lparr>p_var = ''gamma'', p_value = Finite False 4503599627370496 (- 52),
           p_range = Finite False 5516909543528858 (- 50),
           p_scale = Finite False 5744387279809306 (- 47),
           p_offset = Finite False 4595509823847445 (- 50), p_format = 2\<rparr> (2 ^ 1024) =
     Inl OverflowError"
proof -
  let ?rng = "\<lparr>min_val = float_literal 1 10, max_val = float_literal 50 10,
        default_val = float_literal 10 10, format_val = 2\<rparr>"
  have r: "(''gamma'', ?rng) \<in> set RANGES" by (simp add: RANGES_def)
  have s: "SLIDER_MAX < 201" by (simp add: SLIDER_MAX_def)
  note i = out_of_range_examples
  show ?thesis
    using configured_out_of_range[OF r gamma_parameter, of 201, THEN conjunct2]
      configured_out_of_range[OF r gamma_parameter, of "- 1", THEN conjunct2]
      configured_out_of_range[OF r gamma_parameter, of "2 ^ 1024", THEN conjunct2]
      r s i gamma_parameter
    by (simp del: fadd.simps fdiv.simps) blast
qed

text \<open>
  The claim as stated fails three times.  For min = 1e16 and max = 1e16 + 2 the scale is
  100.0 and the offset 1e18, the sum \<open>-1 + 1e18\<close> rounds to 1e18, and position -1 gives
  the value 1e16, which is min and not outside the range.  Not every integer is
  accepted: position \<open>2^1024\<close> raises \<^verbatim>\<open>OverflowError\<close>.  And the value is not always
  set: from the least to the largest finite double the scale is 0.0 and position 100
  raises \<^verbatim>\<open>ZeroDivisionError\<close>.
\<close>

theorem out_of_range_counterexample:
  "flt (float_literal 10000000000000000 1) (float_literal 10000000000000002 1) \<and>
   then_do (Parameter_init ''x''
       \<lparr>min_val = float_literal 10000000000000000 1, max_val = float_literal 10000000000000002 1,
        default_val = float_literal 10000000000000000 1, format_val = 2\<rparr>)
     (\<lambda>p. then_do (set_from_slider_value p (- 1)) (\<lambda>q. Inr (p_value q)))
     = Inr (float_literal 10000000000000000 1) \<and>
   then_do (Parameter_init ''contrast''
       \<lparr>min_val = float_literal 0 10, max_val = float_literal 20 10,
        default_val = float_literal 10 10, format_val = 2\<rparr>)
     (\<lambda>p. set_from_slider_value p (2 ^ 1024)) = Inl OverflowError \<and>
   flt (Finite True 9007199254740991 971) (Finite False 9007199254740991 971) \<and>
   then_do (Parameter_init ''x''
       \<lparr>min_val = Finite True 9007199254740991 971, max_val = Finite False 9007199254740991 971,
        default_val = float_literal 0 10, format_val = 2\<rparr>)
     (\<lambda>p. set_from_slider_value p 100) = Inl ZeroDivisionError"
proof -
  have "flt (float_literal 10000000000000000 1) (float_literal 10000000000000002 1) \<and>
   then_do (Parameter_init ''x''
       \<lparr>min_val = float_literal 10000000000000000 1, max_val = float_literal 10000000000000002 1,
        default_val = float_literal 10000000000000000 1, format_val = 2\<rparr>)
     (\<lambda>p. then_do (set_from_slider_value p (- 1)) (\<lambda>q. Inr (p_value q)))
     = Inr (float_literal 10000000000000000 1) \<and>
   flt (Finite True 9007199254740991 971) (Finite False 9007199254740991 971) \<and>
   then_do (Parameter_init ''x''
       \<lparr>min_val = Finite True 9007199254740991 971, max_val = Finite False 9007199254740991 971,
        default_val = float_literal 0 10, format_val = 2\<rparr>)
     (\<lambda>p. set_from_slider_value p 100) = Inl ZeroDivisionError"
    by code_simp
  then show ?thesis using huge_position_overflows by simp
qed

section \<open>The round trip of a slider position\<close>

text \<open>
  Each operation that stays below \<open>2^K\<close> is within \<open>2^(K - 54)\<close> of the exact result:
  half a unit in the last place of a double of that size.
\<close>

lemma round_ratio_err:
  assumes a: "0 \<le> a" and b: "0 < b"
    and x: "real_of_int a / real_of_int b < 2 powi K" and K: "- 1021 \<le> K" "K \<le> 1023"
  shows "finite_float (round_ratio s a b) \<and>
         \<bar>fval (round_ratio s a b) - sgn_real s (real_of_int a / real_of_int b)\<bar> \<le> 2 powi (K - 54)"
proof -
  let ?x = "real_of_int a / real_of_int b"
  have err: "\<bar>rmag a b - ?x\<bar> \<le> 2 powi (K - 54)" by (rule rmag_err[OF a b x K(1)])
  have "(2::real) powi (K - 54) \<le> 2 powi K" by (rule powi_mono) simp
  then have "rmag a b < 2 powi K + 2 powi K" using err x by linarith
  also have "\<dots> = 2 powi (K + 1)" unfolding powi_add by simp
  also have "\<dots> \<le> 2 powi 1024" by (rule powi_mono) (use K(2) in simp)
  finally have small: "rmag a b < 2 powi 1024" .
  obtain m e where r: "round_ratio s a b = Finite s m e" "0 \<le> m"
      "real_of_int m * 2 powi e = rmag a b"
    using round_ratio_fin[OF a b small, of s] by blast
  have "fval (round_ratio s a b) = sgn_real s (rmag a b)"
    unfolding r(1) fval_Finite with_sign_real sgn_real_def using r(3) by simp
  then have "\<bar>fval (round_ratio s a b) - sgn_real s ?x\<bar> = \<bar>rmag a b - ?x\<bar>"
    by (auto simp add: sgn_real_def)
  then show ?thesis using err r(1,2) by simp
qed

lemma sgn_real_abs: "0 \<le> x \<Longrightarrow> \<bar>sgn_real s x\<bar> = x"
  by (simp add: sgn_real_def)

lemma fmul_err:
  assumes "finite_float x" "finite_float y" "\<bar>fval x * fval y\<bar> < 2 powi K"
    "- 1021 \<le> K" "K \<le> 1023"
  shows "finite_float (fmul x y) \<and> \<bar>fval (fmul x y) - fval x * fval y\<bar> \<le> 2 powi (K - 54)"
proof -
  obtain s1 m1 e1 where x: "x = Finite s1 m1 e1" "0 \<le> m1" using assms(1) by (rule finite_floatE)
  obtain s2 m2 e2 where y: "y = Finite s2 m2 e2" "0 \<le> m2" using assms(2) by (rule finite_floatE)
  let ?a = "m1 * m2 * 2 ^ nat (e1 + e2)" and ?b = "(2::int) ^ nat (- (e1 + e2))"
  have a: "0 \<le> ?a" and b: "0 < ?b" using x(2) y(2) by simp_all
  have ex: "sgn_real (s1 \<noteq> s2) (real_of_int ?a / real_of_int ?b) = fval x * fval y"
    unfolding x y by (rule fmul_exact)
  have q: "0 \<le> real_of_int ?a / real_of_int ?b"
    by (rule divide_nonneg_pos) (use a b in \<open>simp_all only: of_int_0_le_iff of_int_0_less_iff\<close>)
  have "real_of_int ?a / real_of_int ?b < 2 powi K"
    using assms(3) sgn_real_abs[OF q, of "s1 \<noteq> s2"] unfolding ex[symmetric] by simp
  then show ?thesis
    using round_ratio_err[OF a b _ assms(4,5), of "s1 \<noteq> s2"]
    unfolding ex x(1) y(1) fmul_Finite by blast
qed

lemma fdiv_err:
  assumes "finite_float x" "finite_float z" "0 < fval z" "\<bar>fval x / fval z\<bar> < 2 powi K"
    "- 1021 \<le> K" "K \<le> 1023"
  shows "\<exists>r. fdiv x z = Inr r \<and> finite_float r \<and> \<bar>fval r - fval x / fval z\<bar> \<le> 2 powi (K - 54)"
proof -
  obtain s1 m1 e1 where x: "x = Finite s1 m1 e1" "0 \<le> m1" using assms(1) by (rule finite_floatE)
  obtain s2 m2 e2 where z: "z = Finite s2 m2 e2" "0 \<le> m2" using assms(2) by (rule finite_floatE)
  have m2: "0 < m2" using assms(3) z by (cases "m2 = 0") (simp_all add: with_sign_def split: if_splits)
  let ?a = "m1 * 2 ^ nat (- (e2 - e1))" and ?b = "m2 * 2 ^ nat (e2 - e1)"
  have a: "0 \<le> ?a" and b: "0 < ?b" using x(2) m2 by simp_all
  have ex: "sgn_real (s1 \<noteq> s2) (real_of_int ?a / real_of_int ?b) = fval x / fval z"
    unfolding x z by (rule fdiv_exact[OF m2])
  have q: "0 \<le> real_of_int ?a / real_of_int ?b"
    by (rule divide_nonneg_pos) (use a b in \<open>simp_all only: of_int_0_le_iff of_int_0_less_iff\<close>)
  have "real_of_int ?a / real_of_int ?b < 2 powi K"
    using assms(4) sgn_real_abs[OF q, of "s1 \<noteq> s2"] unfolding ex[symmetric] by simp
  then have "finite_float (round_ratio (s1 \<noteq> s2) ?a ?b) \<and>
      \<bar>fval (round_ratio (s1 \<noteq> s2) ?a ?b) - fval x / fval z\<bar> \<le> 2 powi (K - 54)"
    using round_ratio_err[OF a b _ assms(5,6), of "s1 \<noteq> s2"] unfolding ex by blast
  moreover have "fdiv x z = Inr (round_ratio (s1 \<noteq> s2) ?a ?b)"
    unfolding x(1) z(1) using m2 by (intro fdiv_Finite) simp
  ultimately show ?thesis by blast
qed

lemma round_int_err:
  assumes "\<bar>real_of_int a * 2 powi e\<bar> < 2 powi K" "- 1021 \<le> K" "K \<le> 1023"
  shows "finite_float (round_int a e) \<and>
         \<bar>fval (round_int a e) - real_of_int a * 2 powi e\<bar> \<le> 2 powi (K - 54)"
proof -
  let ?a = "\<bar>a\<bar> * 2 ^ nat e" and ?b = "(2::int) ^ nat (- e)"
  have a: "0 \<le> ?a" and b: "0 < ?b" by simp_all
  have q: "real_of_int ?a / real_of_int ?b = real_of_int \<bar>a\<bar> * 2 powi e"
    by (rule round_scaled_ratio)
  have ab: "\<bar>real_of_int a * 2 powi e\<bar> = real_of_int \<bar>a\<bar> * 2 powi e"
    using powi_pos[of e] by (simp add: abs_mult)
  have sg: "sgn_real (a < 0) (real_of_int ?a / real_of_int ?b) = real_of_int a * 2 powi e"
    unfolding q by (simp add: sgn_real_def)
  have "real_of_int ?a / real_of_int ?b < 2 powi K" using assms(1) unfolding q ab .
  then show ?thesis
    using round_ratio_err[OF a b _ assms(2,3), of "a < 0"]
    unfolding sg round_int_def round_scaled_def by blast
qed

lemma fadd_err:
  assumes "finite_float x" "finite_float y" "\<bar>fval x + fval y\<bar> < 2 powi K"
    "- 1021 \<le> K" "K \<le> 1023"
  shows "finite_float (fadd x y) \<and> \<bar>fval (fadd x y) - (fval x + fval y)\<bar> \<le> 2 powi (K - 54)"
proof -
  obtain s1 m1 e1 where x: "x = Finite s1 m1 e1" "0 \<le> m1" using assms(1) by (rule finite_floatE)
  obtain s2 m2 e2 where y: "y = Finite s2 m2 e2" "0 \<le> m2" using assms(2) by (rule finite_floatE)
  let ?e = "min e1 e2"
  let ?a = "with_sign s1 m1 * 2 ^ nat (e1 - ?e) + with_sign s2 m2 * 2 ^ nat (e2 - ?e)"
  have ex: "real_of_int ?a * 2 powi ?e = fval x + fval y"
    unfolding x y by (rule fadd_exact)
  show ?thesis
  proof (cases "?a = 0")
    case True
    then have "fadd x y = Finite (s1 \<and> s2) 0 0" unfolding x y fadd_Finite Let_def by simp
    moreover have "fval x + fval y = 0" using ex True by simp
    ultimately show ?thesis using powi_pos[of "K - 54"] by (simp add: with_sign_def)
  next
    case False
    then have f: "fadd x y = round_int ?a ?e" unfolding x y fadd_Finite Let_def by simp
    show ?thesis
      using round_int_err[of ?a ?e K] assms(3,4,5) unfolding f ex by blast
  qed
qed

lemma fsub_err:
  assumes "finite_float x" "finite_float y" "\<bar>fval x - fval y\<bar> < 2 powi K"
    "- 1021 \<le> K" "K \<le> 1023"
  shows "finite_float (fsub x y) \<and> \<bar>fval (fsub x y) - (fval x - fval y)\<bar> \<le> 2 powi (K - 54)"
  using fadd_err[of x "fneg y" K] assms unfolding fsub_def by simp

lemma int_to_float_err:
  assumes "\<bar>real_of_int v\<bar> < 2 powi K" "- 1021 \<le> K" "K \<le> 1023"
  shows "\<exists>f. int_to_float v = Inr f \<and> finite_float f \<and> \<bar>fval f - real_of_int v\<bar> \<le> 2 powi (K - 54)"
proof -
  have q: "real_of_int \<bar>v\<bar> / real_of_int 1 < 2 powi K" using assms(1) by simp
  have sg: "sgn_real (v < 0) (real_of_int \<bar>v\<bar> / real_of_int 1) = real_of_int v"
    by (simp add: sgn_real_def)
  have "finite_float (round_ratio (v < 0) \<bar>v\<bar> 1) \<and>
      \<bar>fval (round_ratio (v < 0) \<bar>v\<bar> 1) - real_of_int v\<bar> \<le> 2 powi (K - 54)"
    using round_ratio_err[OF _ _ q assms(2,3), of "v < 0"] unfolding sg by simp
  then show ?thesis using int_to_float_finite[of v] by blast
qed

lemma py_round_near:
  assumes "finite_float d" "\<bar>fval d - real_of_int k\<bar> < 1 / 2"
  shows "py_round d = Inr k"
proof -
  obtain s m e where d: "d = Finite s m e" "0 \<le> m" using assms(1) by (rule finite_floatE)
  let ?n = "m * 2 ^ nat e" and ?d = "(2::int) ^ nat (- e)"
  have q: "real_of_int ?n / real_of_int ?d = real_of_int m * 2 powi e"
    by (rule round_scaled_ratio)
  have dpos: "0 < ?d" by simp
  show ?thesis
  proof (cases s)
    case False
    then have "\<bar>real_of_int ?n / real_of_int ?d - real_of_int k\<bar> < 1 / 2"
      using assms(2) unfolding q d by (simp add: with_sign_def)
    then have "round_half_even ?n ?d = k" by (rule rhe_near[OF dpos])
    then show ?thesis unfolding d using False by (simp add: with_sign_def)
  next
    case True
    have "\<bar>real_of_int m * 2 powi e - real_of_int (- k)\<bar> = \<bar>fval d - real_of_int k\<bar>"
      unfolding d using True by (simp add: with_sign_def)
    then have "\<bar>real_of_int ?n / real_of_int ?d - real_of_int (- k)\<bar> < 1 / 2"
      using assms(2) unfolding q by simp
    then have "round_half_even ?n ?d = - k" by (rule rhe_near[OF dpos])
    then show ?thesis unfolding d using True by (simp add: with_sign_def)
  qed
qed

text \<open>
  With a scale between 1 and 256 and an offset of at most 256 in magnitude, the four
  roundings from a position to the value and back add up to far less than one half, so
  \<open>round\<close> returns the position itself.
\<close>

lemma small_errors:
  "(2::real) powi (8 - 54) \<le> 1 / 1000000" "(2::real) powi (9 - 54) \<le> 1 / 1000000"
  "(2::real) powi (10 - 54) \<le> 1 / 1000000" "(2::real) powi (11 - 54) \<le> 1 / 1000000"
  "(2::real) powi 8 = 256" "(2::real) powi 9 = 512" "(2::real) powi 10 = 1024"
  "(2::real) powi 11 = 2048"
  by (simp_all add: power_int_minus)

lemma round_trip_exact:
  assumes off: "finite_float (p_offset p)" "\<bar>fval (p_offset p)\<bar> \<le> 256"
    and sc: "finite_float (p_scale p)" "1 \<le> fval (p_scale p)" "fval (p_scale p) \<le> 256"
    and v: "0 \<le> v" "v \<le> SLIDER_MAX"
  shows "\<exists>x. set_from_slider_value p v = Inr (p\<lparr>p_value := x\<rparr>) \<and>
             slider_value (p\<lparr>p_value := x\<rparr>) = Inr v"
proof -
  define c where "c = fval (p_scale p)"
  define f where "f = fval (p_offset p)"
  define n where "n = real_of_int v"
  note E = small_errors
  have c: "1 \<le> c" "c \<le> 256" "0 < c" using sc(2,3) by (simp_all add: c_def)
  have f: "\<bar>f\<bar> \<le> 256" using off(2) by (simp add: f_def)
  have n: "0 \<le> n" "n \<le> 200" using v by (simp_all add: n_def SLIDER_MAX_def)
  have "\<bar>real_of_int v\<bar> < 2 powi 8" unfolding E using n by (simp add: n_def)
  then obtain fv where fv: "int_to_float v = Inr fv" "finite_float fv"
      "\<bar>fval fv - n\<bar> \<le> 2 powi (8 - 54)"
    unfolding n_def using int_to_float_err[of v 8] by auto
  define a where "a = fval fv"
  have a: "\<bar>a - n\<bar> \<le> 1 / 1000000" using fv(3) E(1) unfolding a_def by linarith
  define s where "s = fadd fv (p_offset p)"
  have "\<bar>fval fv + fval (p_offset p)\<bar> < 2 powi 9"
    unfolding E a_def[symmetric] f_def[symmetric] using a n f by linarith
  then have s: "finite_float s" "\<bar>fval s - (a + f)\<bar> \<le> 2 powi (9 - 54)"
    unfolding s_def a_def f_def using fadd_err[OF fv(2) off(1), of 9] by simp_all
  define b where "b = fval s"
  have b: "\<bar>b - (a + f)\<bar> \<le> 1 / 1000000" using s(2) E(2) unfolding b_def by linarith
  have bb: "\<bar>b\<bar> \<le> 457" using b a n f by linarith
  have "\<bar>b / c\<bar> = \<bar>b\<bar> / c" using c(3) by simp
  also have "\<dots> \<le> \<bar>b\<bar> / 1" by (rule divide_left_mono) (use c in simp_all)
  finally have bc: "\<bar>b / c\<bar> \<le> 457" using bb by simp
  then have "\<bar>fval s / fval (p_scale p)\<bar> < 2 powi 10"
    unfolding E b_def[symmetric] c_def[symmetric] by linarith
  moreover have "0 < fval (p_scale p)" using c(3) by (simp add: c_def)
  ultimately obtain x where x: "fdiv s (p_scale p) = Inr x" "finite_float x"
      "\<bar>fval x - b / c\<bar> \<le> 2 powi (10 - 54)"
    unfolding b_def c_def using fdiv_err[OF s(1) sc(1), of 10] by auto
  define y where "y = fval x"
  have y: "\<bar>y - b / c\<bar> \<le> 1 / 1000000" using x(3) E(3) unfolding y_def by linarith
  have "y * c - b = c * (y - b / c)" using c(3) by (simp add: field_simps)
  then have "\<bar>y * c - b\<bar> = c * \<bar>y - b / c\<bar>" using c(3) by (simp add: abs_mult)
  also have "\<dots> \<le> 256 * (1 / 1000000)"
    by (rule mult_mono) (use c y in simp_all)
  finally have yc: "\<bar>y * c - b\<bar> \<le> 256 / 1000000" by simp
  have set: "set_from_slider_value p v = Inr (p\<lparr>p_value := x\<rparr>)"
    using fv(1) x(1) by (simp add: set_from_slider_value_def s_def)
  define t where "t = fmul x (p_scale p)"
  have "\<bar>fval x * fval (p_scale p)\<bar> < 2 powi 10"
    unfolding E y_def[symmetric] c_def[symmetric] using yc bb by linarith
  then have t: "finite_float t" "\<bar>fval t - y * c\<bar> \<le> 2 powi (10 - 54)"
    unfolding t_def y_def c_def using fmul_err[OF x(2) sc(1), of 10] by simp_all
  define u where "u = fval t"
  have u: "\<bar>u - y * c\<bar> \<le> 1 / 1000000" using t(2) E(3) unfolding u_def by linarith
  define d where "d = fsub t (p_offset p)"
  have "\<bar>fval t - fval (p_offset p)\<bar> < 2 powi 11"
    unfolding E u_def[symmetric] f_def[symmetric] using u yc bb f by linarith
  then have d: "finite_float d" "\<bar>fval d - (u - f)\<bar> \<le> 2 powi (11 - 54)"
    unfolding d_def u_def f_def using fsub_err[OF t(1) off(1), of 11] by simp_all
  have "\<bar>fval d - (u - f)\<bar> \<le> 1 / 1000000" using d(2) E(4) by linarith
  then have "\<bar>fval d - n\<bar> < 1 / 2" using u yc b a by linarith
  then have "py_round d = Inr v" unfolding n_def by (rule py_round_near[OF d(1)])
  then have "slider_value (p\<lparr>p_value := x\<rparr>) = Inr v"
    by (simp add: slider_value_def d_def t_def)
  then show ?thesis using set by blast
qed

lemma scale_bounds_RANGES:
  "list_all (\<lambda>(var, rng).
      case Parameter_init var rng of
        Inl _ \<Rightarrow> False
      | Inr p \<Rightarrow>
          fle (Finite False 1 0) (p_scale p) \<and> fle (p_scale p) (Finite False 256 0) \<and>
          fle (Finite True 256 0) (p_offset p) \<and> fle (p_offset p) (Finite False 256 0)) RANGES"
  by code_simp

text \<open>
  C1 (as amended).  For each of the four ranges of \<open>RANGES\<close>, every integer position in
  [0, \<open>SLIDER_MAX\<close>] and whatever the current value: \<open>set_from_slider_value\<close> with the
  position returns, and \<open>slider_value()\<close> then returns exactly that position (so also
  within \<open>\<plusminus>\<close>1 of it).
\<close>

theorem configured_round_trip:
  assumes "(var, rng) \<in> set RANGES" and "Parameter_init var rng = Inr p"
    and "0 \<le> v" and "v \<le> SLIDER_MAX"
  shows "\<exists>q. set_from_slider_value (p\<lparr>p_value := w\<rparr>) v = Inr q \<and> slider_value q = Inr v"
proof -
  obtain p' where p': "Parameter_init var rng = Inr p'"
      "finite_float (p_offset p')" "finite_float (p_scale p')"
    using assms(1) by (rule configured_rangeE)
  have pp: "p' = p" using p'(1) assms(2) by simp
  note fin = p'(2,3)[unfolded pp]
  have "fle (Finite False 1 0) (p_scale p) \<and> fle (p_scale p) (Finite False 256 0) \<and>
      fle (Finite True 256 0) (p_offset p) \<and> fle (p_offset p) (Finite False 256 0)"
    using scale_bounds_RANGES assms(1,2) by (auto simp: list_all_iff)
  then have "fval (Finite False 1 0) \<le> fval (p_scale p)"
      "fval (p_scale p) \<le> fval (Finite False 256 0)"
      "fval (Finite True 256 0) \<le> fval (p_offset p)"
      "fval (p_offset p) \<le> fval (Finite False 256 0)"
    using fin by (simp_all add: fle_fval del: fval_Finite)
  then have b: "1 \<le> fval (p_scale p)" "fval (p_scale p) \<le> 256" "\<bar>fval (p_offset p)\<bar> \<le> 256"
    by (simp_all add: with_sign_def)
  let ?p = "p\<lparr>p_value := w\<rparr>"
  have "\<exists>x. set_from_slider_value ?p v = Inr (?p\<lparr>p_value := x\<rparr>) \<and>
             slider_value (?p\<lparr>p_value := x\<rparr>) = Inr v"
    by (rule round_trip_exact) (use fin b assms(3,4) in simp_all)
  then show ?thesis by blast
qed

theorem configured_round_trip_witness:
  "(''gamma'', \<lparr>min_val = float_literal 1 10, max_val = float_literal 50 10,
        default_val = float_literal 10 10, format_val = 2\<rparr>) \<in> set RANGES \<and>
   Parameter_init ''gamma'' \<lparr>min_val = float_literal 1 10, max_val = float_literal 50 10,
        default_val = float_literal 10 10, format_val = 2\<rparr> =
     Inr \<lparr>p_var = ''gamma'', p_value = Finite False 4503599627370496 (- 52),
          p_range = Finite False 5516909543528858 (- 50),
          p_scale = Finite False 5744387279809306 (- 47),
          p_offset = Finite False 4595509823847445 (- 50), p_format = 2\<rparr> \<and>
   (0 :: int) \<le> 37 \<and> 37 \<le> SLIDER_MAX \<and>
   (\<exists>q. set_from_slider_value
          \<lparr>p_var = ''gamma'', p_value = Finite False 4503599627370496 (- 52),
           p_range = Finite False 5516909543528858 (- 50),
           p_scale = Finite False 5744387279809306 (- 47),
           p_offset = Finite False 4595509823847445 (- 50), p_format = 2\<rparr> 37 = Inr q \<and>
        slider_value q = Inr 37)"
proof -
  let ?rng = "\<lparr>min_val = float_literal 1 10, max_val = float_literal 50 10,
        default_val = float_literal 10 10, format_val = 2\<rparr>"
  have r: "(''gamma'', ?rng) \<in> set RANGES" by (simp add: RANGES_def)
  have s: "(0 :: int) \<le> 37" "37 \<le> SLIDER_MAX" by (simp_all add: SLIDER_MAX_def)
  show ?thesis
    using configured_round_trip[OF r gamma_parameter s, of "Finite False 4503599627370496 (- 52)"]
      r s gamma_parameter
    by simp
qed

text \<open>
  For an arbitrary range with min < max the round trip can miss by more than 1.  For
  min = 1e16 and max = 1e16 + 2 the scale is 100.0 and the offset 1e18; \<open>5 + 1e18\<close> rounds
  to 1e18, position 5 gives the value 1e16, and \<open>slider_value()\<close> of it is 0.
\<close>

theorem round_trip_counterexample:
  "flt (float_literal 10000000000000000 1) (float_literal 10000000000000002 1) \<and>
   (0 :: int) \<le> 5 \<and> 5 \<le> SLIDER_MAX \<and>
   then_do (Parameter_init ''x''
       \<lparr>min_val = float_literal 10000000000000000 1, max_val = float_literal 10000000000000002 1,
        default_val = float_literal 10000000000000000 1, format_val = 2\<rparr>)
     (\<lambda>p. then_do (set_from_slider_value p 5) slider_value) = Inr 0 \<and>
   \<not> \<bar>0 - 5 :: int\<bar> \<le> 1"
  by code_simp

end
